(* ===== verification/Prelude.thy ===== *)
theory Prelude
  imports Main "HOL-Library.Word"
begin

text \<open>
  Shared material of the development: the machine-integer types, the faults that a run
  of the C++ code can end in, the small statement language in which the handlers are
  written (every definition stays an ordinary HOL function), its weakest-precondition
  rules, and the locale from which every component derives its run invariants.
\<close>

unbundle bit_operations_syntax

section \<open>Machine integers\<close>

type_synonym u8 = "8 word"
type_synonym u16 = "16 word"
type_synonym u32 = "32 word"
type_synonym u64 = "64 word"

lemma unat_ucast_u32_u64 [simp]: "unat (ucast (x :: u32) :: u64) = unat x"
proof -
  have "unat x < 2 ^ LENGTH(32)" by (rule unsigned_less)
  then have "take_bit 64 (unat x) = unat x" by (simp add: take_bit_nat_eq_self_iff)
  then show ?thesis by (simp add: unsigned_ucast_eq)
qed

section \<open>Faults and results\<close>

text \<open>
  What a run of the code can end in besides returning: a dereferenced null pointer, an
  index outside a vector or an argument vector, a failed assertion, an integer division
  by zero, a write to a closed stream. A computation returns \<open>Inl\<close> of a fault or \<open>Inr\<close> of its result.
\<close>

datatype fault = Null_Deref | Out_Of_Bounds | Assert_Fail | Div_By_Zero | Closed_Stream

named_theorems wp_simps \<open>weakest-precondition equations of statements\<close>
named_theorems run_simps \<open>equations that execute statements\<close>

definition bind_res :: "fault + 'a \<Rightarrow> ('a \<Rightarrow> fault + 'b) \<Rightarrow> fault + 'b" where
  "bind_res m f = (case m of Inl e \<Rightarrow> Inl e | Inr x \<Rightarrow> f x)"

lemma bind_res_Inl [simp, run_simps]: "bind_res (Inl e) f = Inl e"
  by (simp add: bind_res_def)

lemma bind_res_Inr [simp, run_simps]: "bind_res (Inr x) f = f x"
  by (simp add: bind_res_def)

lemma bind_res_eq_Inr:
  "bind_res m f = Inr y \<longleftrightarrow> (\<exists>x. m = Inr x \<and> f x = Inr y)"
  by (cases m) auto

lemma bind_res_assoc: "bind_res (bind_res m f) g = bind_res m (\<lambda>x. bind_res (f x) g)"
  by (cases m) auto

section \<open>Statements\<close>

text \<open>
  A C++ statement over a state of type \<open>'s\<close> is a function \<open>'s \<Rightarrow> fault + 's\<close>.
  \<open>block\<close> is a statement sequence, \<open>upd\<close> an assignment, \<open>ifs\<close> and \<open>ife\<close>
  the conditionals, \<open>letv\<close> a local variable that keeps a value read now,
  \<open>assertc\<close> the assert macro.
\<close>

type_synonym 's stmt = "'s \<Rightarrow> fault + 's"

fun block :: "'s stmt list \<Rightarrow> 's stmt" where
  "block [] s = Inr s"
| "block (c # cs) s = bind_res (c s) (block cs)"

definition upd :: "('s \<Rightarrow> 's) \<Rightarrow> 's stmt" where
  "upd f s = Inr (f s)"

definition ife :: "('s \<Rightarrow> bool) \<Rightarrow> 's stmt \<Rightarrow> 's stmt \<Rightarrow> 's stmt" where
  "ife b c d s = (if b s then c s else d s)"

definition ifs :: "('s \<Rightarrow> bool) \<Rightarrow> 's stmt \<Rightarrow> 's stmt" where
  "ifs b c s = (if b s then c s else Inr s)"

definition letv :: "('s \<Rightarrow> 'v) \<Rightarrow> ('v \<Rightarrow> 's stmt) \<Rightarrow> 's stmt" where
  "letv r f s = f (r s) s"

definition assertc :: "('s \<Rightarrow> bool) \<Rightarrow> 's stmt" where
  "assertc b s = (if b s then Inr s else Inl Assert_Fail)"

definition fail_with :: "fault \<Rightarrow> 's stmt" where
  "fail_with e s = Inl e"

lemmas [run_simps] =
  block.simps upd_def ife_def ifs_def letv_def assertc_def fail_with_def

lemma block_append: "block (cs @ ds) s = bind_res (block cs s) (block ds)"
  by (induction cs arbitrary: s) (simp_all add: bind_res_def split: sum.split)

section \<open>Weakest preconditions\<close>

text \<open>
  \<open>wp c Q s\<close>: \<open>c\<close> does not fault in \<open>s\<close> and ends in a state with \<open>Q\<close>.
  \<open>wlp c Q s\<close>: if \<open>c\<close> does not fault, it ends in a state with \<open>Q\<close>.
\<close>

definition wp :: "'s stmt \<Rightarrow> ('s \<Rightarrow> bool) \<Rightarrow> 's \<Rightarrow> bool" where
  "wp c Q s = (case c s of Inl _ \<Rightarrow> False | Inr s' \<Rightarrow> Q s')"

definition wlp :: "'s stmt \<Rightarrow> ('s \<Rightarrow> bool) \<Rightarrow> 's \<Rightarrow> bool" where
  "wlp c Q s = (case c s of Inl _ \<Rightarrow> True | Inr s' \<Rightarrow> Q s')"

lemma wp_block_Nil [wp_simps]: "wp (block []) Q s = Q s"
  by (simp add: wp_def)

lemma wp_block_Cons [wp_simps]: "wp (block (c # cs)) Q s = wp c (wp (block cs) Q) s"
  by (simp add: wp_def split: sum.splits)

lemma wp_upd [wp_simps]: "wp (upd f) Q s = Q (f s)"
  by (simp add: wp_def upd_def)

lemma wp_ife [wp_simps]: "wp (ife b c d) Q s = (if b s then wp c Q s else wp d Q s)"
  by (simp add: wp_def ife_def)

lemma wp_ifs [wp_simps]: "wp (ifs b c) Q s = (if b s then wp c Q s else Q s)"
  by (simp add: wp_def ifs_def)

lemma wp_letv [wp_simps]: "wp (letv r f) Q s = wp (f (r s)) Q s"
  by (simp add: wp_def letv_def)

lemma wp_assertc [wp_simps]: "wp (assertc b) Q s = (b s \<and> Q s)"
  by (simp add: wp_def assertc_def)

lemma wp_fail_with [wp_simps]: "wp (fail_with e) Q s = False"
  by (simp add: wp_def fail_with_def)

lemma wlp_block_Nil [wp_simps]: "wlp (block []) Q s = Q s"
  by (simp add: wlp_def)

lemma wlp_block_Cons [wp_simps]: "wlp (block (c # cs)) Q s = wlp c (wlp (block cs) Q) s"
  by (simp add: wlp_def split: sum.splits)

lemma wlp_upd [wp_simps]: "wlp (upd f) Q s = Q (f s)"
  by (simp add: wlp_def upd_def)

lemma wlp_ife [wp_simps]: "wlp (ife b c d) Q s = (if b s then wlp c Q s else wlp d Q s)"
  by (simp add: wlp_def ife_def)

lemma wlp_ifs [wp_simps]: "wlp (ifs b c) Q s = (if b s then wlp c Q s else Q s)"
  by (simp add: wlp_def ifs_def)

lemma wlp_letv [wp_simps]: "wlp (letv r f) Q s = wlp (f (r s)) Q s"
  by (simp add: wlp_def letv_def)

lemma wlp_assertc [wp_simps]: "wlp (assertc b) Q s = (b s \<longrightarrow> Q s)"
  by (simp add: wlp_def assertc_def)

lemma wlp_fail_with [wp_simps]: "wlp (fail_with e) Q s = True"
  by (simp add: wlp_def fail_with_def)

lemma wp_iff: "wp c Q s \<longleftrightarrow> (\<exists>s'. c s = Inr s' \<and> Q s')"
  by (auto simp: wp_def split: sum.splits)

lemma wlp_iff: "wlp c Q s \<longleftrightarrow> (\<forall>s'. c s = Inr s' \<longrightarrow> Q s')"
  by (auto simp: wlp_def split: sum.splits)

lemma wlpD: "wlp c Q s \<Longrightarrow> c s = Inr s' \<Longrightarrow> Q s'"
  by (simp add: wlp_def)

lemma wpE: "wp c Q s \<Longrightarrow> (\<And>s'. c s = Inr s' \<Longrightarrow> Q s' \<Longrightarrow> P) \<Longrightarrow> P"
  by (auto simp: wp_iff)

lemma wp_mono: "wp c Q s \<Longrightarrow> (\<And>s'. Q s' \<Longrightarrow> R s') \<Longrightarrow> wp c R s"
  by (auto simp: wp_iff)

section \<open>Runs of an event-driven component\<close>

text \<open>A component driven by callbacks: \<open>step e\<close> is the handler of event \<open>e\<close>.\<close>

definition run :: "('e \<Rightarrow> 's stmt) \<Rightarrow> 'e list \<Rightarrow> 's stmt" where
  "run step es = block (map step es)"

lemma run_Nil [simp]: "run step [] s = Inr s"
  by (simp add: run_def)

lemma run_Cons [simp]: "run step (e # es) s = bind_res (step e s) (run step es)"
  by (simp add: run_def)

lemma run_append: "run step (es @ fs) s = bind_res (run step es s) (run step fs)"
  by (simp add: run_def block_append)

text \<open>
  The interface between a component and its run properties: whatever handlers keep an
  invariant (partial correctness), or keep it without faulting (total correctness), every
  run of them does.
\<close>

locale invariant_machine =
  fixes step :: "'e \<Rightarrow> 's stmt"
    and ok :: "'e \<Rightarrow> bool"
    and inv :: "'s \<Rightarrow> bool"
  assumes step_inv: "ok e \<Longrightarrow> inv s \<Longrightarrow> step e s = Inr s' \<Longrightarrow> inv s'"
begin

lemma run_inv: "\<forall>e \<in> set es. ok e \<Longrightarrow> inv s \<Longrightarrow> run step es s = Inr s' \<Longrightarrow> inv s'"
  by (induction es arbitrary: s) (auto simp: bind_res_eq_Inr dest: step_inv)

end

locale safe_machine = invariant_machine +
  assumes step_safe: "ok e \<Longrightarrow> inv s \<Longrightarrow> \<exists>s'. step e s = Inr s'"
begin

lemma run_safe: "\<forall>e \<in> set es. ok e \<Longrightarrow> inv s \<Longrightarrow> \<exists>s'. run step es s = Inr s' \<and> inv s'"
proof (induction es arbitrary: s)
  case (Cons e es)
  then obtain s1 where "step e s = Inr s1" "inv s1"
    using step_safe step_inv by (meson list.set_intros(1))
  with Cons show ?case by simp
qed simp

end

lemma invariant_machineI:
  "(\<And>e s. ok e \<Longrightarrow> J s \<Longrightarrow> wlp (step e) J s) \<Longrightarrow> invariant_machine step ok J"
  by unfold_locales (auto dest: wlpD)

lemma safe_machineI:
  assumes "\<And>e s. ok e \<Longrightarrow> J s \<Longrightarrow> wp (step e) J s"
  shows "safe_machine step ok J"
proof
  fix e s s'
  assume "ok e" "J s"
  from assms [OF this] show "\<exists>s'. step e s = Inr s'" by (auto simp: wp_iff)
  from assms [OF \<open>ok e\<close> \<open>J s\<close>] show "step e s = Inr s' \<Longrightarrow> J s'" by (auto simp: wp_iff)
qed

text \<open>
  Handlers that each add a weight of the event to a measure of the state, such as a counter
  or a total in the output: a run adds the sum of the weights.
\<close>

locale measured_machine =
  fixes step :: "'e \<Rightarrow> 's stmt"
    and ok :: "'e \<Rightarrow> bool"
    and weight :: "'e \<Rightarrow> 'm :: comm_monoid_add"
    and total_of :: "'s \<Rightarrow> 'm"
  assumes step_adds: "ok e \<Longrightarrow> step e s = Inr s' \<Longrightarrow> total_of s' = total_of s + weight e"
begin

lemma run_adds:
  "\<forall>e \<in> set es. ok e \<Longrightarrow> run step es s = Inr s' \<Longrightarrow>
     total_of s' = total_of s + sum_list (map weight es)"
proof (induction es arbitrary: s)
  case (Cons e es)
  then obtain s1 where 1: "step e s = Inr s1" and 2: "run step es s1 = Inr s'"
    by (auto simp: bind_res_eq_Inr)
  from Cons.IH [OF _ 2] Cons.prems(1) step_adds [OF _ 1] show ?case by (simp add: add.assoc)
qed simp

end

section \<open>Vectors\<close>

text \<open>
  Access to a \<open>std::vector\<close> by \<open>operator[]\<close>: the standard leaves an index outside the
  vector undefined, which is the fault \<open>Out_Of_Bounds\<close> here.
\<close>

definition vec_at :: "'a list \<Rightarrow> nat \<Rightarrow> fault + 'a" where
  "vec_at xs i = (if i < length xs then Inr (xs ! i) else Inl Out_Of_Bounds)"

definition vec_resize :: "nat \<Rightarrow> 'a \<Rightarrow> 'a list \<Rightarrow> 'a list" where
  "vec_resize n d xs = take n xs @ replicate (n - length xs) d"

lemma length_vec_resize [simp]: "length (vec_resize n d xs) = n"
  by (simp add: vec_resize_def)

lemma vec_at_Inr [simp]: "i < length xs \<Longrightarrow> vec_at xs i = Inr (xs ! i)"
  by (simp add: vec_at_def)

end
