(* ===== verification/Libc.thy ===== *)
theory Libc
  imports Prelude
begin

text \<open>
  What the sources use of the C library: C strings in fixed buffers (\<open>strcpy\<close>,
  \<open>snprintf\<close>, \<open>fgets\<close>, \<open>strcspn\<close>), the number formats of \<open>printf\<close> and the
  reader \<open>strtol\<close> with base 0, on byte strings. \<open>long\<close> has 64 bits (the Makefiles
  build with \<open>-m64\<close>).
\<close>

section \<open>C strings\<close>

abbreviation NUL :: char where
  "NUL \<equiv> CHR 0x00"

definition cstr :: "string \<Rightarrow> string" where
  "cstr bs = takeWhile (\<lambda>c. c \<noteq> NUL) bs"

definition snprintf :: "nat \<Rightarrow> string \<Rightarrow> string" where
  "snprintf n s = take (n - 1) (cstr s)"

lemma length_snprintf: "0 < n \<Longrightarrow> length (snprintf n s) < n"
  by (auto simp: snprintf_def)

lemma cstr_id: "NUL \<notin> set s \<Longrightarrow> cstr s = s"
  unfolding cstr_def by (rule takeWhile_eq_all_conv [THEN iffD2]) metis

lemma NUL_notin_cstr: "NUL \<notin> set (cstr s)"
  by (auto simp: cstr_def dest: set_takeWhileD)

lemma cstr_terminated: "NUL \<notin> set s \<Longrightarrow> cstr (s @ NUL # t) = s"
  by (induction s) (auto simp: cstr_def)

lemma cstr_snprintf: "cstr (snprintf n s) = snprintf n s"
  by (rule cstr_id) (auto simp: snprintf_def dest: in_set_takeD simp: NUL_notin_cstr)

lemma snprintf_fits: "NUL \<notin> set s \<Longrightarrow> length s < n \<Longrightarrow> snprintf n s = s"
  by (simp add: snprintf_def cstr_id)

section \<open>Printing numbers\<close>

definition digit_char :: "nat \<Rightarrow> char" where
  "digit_char d = char_of (if d < 10 then d + 48 else d + 87)"

fun show_base :: "nat \<Rightarrow> nat \<Rightarrow> string" where
  "show_base b n =
     (if n < b \<or> b < 2 then [digit_char n] else show_base b (n div b) @ [digit_char (n mod b)])"

declare show_base.simps [simp del]

definition show_u :: "nat \<Rightarrow> string" where
  "show_u n = show_base 10 n"

definition show_d :: "int \<Rightarrow> string" where
  "show_d i = (if i < 0 then CHR ''-'' # show_u (nat (- i)) else show_u (nat i))"

definition show_x :: "nat \<Rightarrow> string" where
  "show_x n = show_base 16 n"

text \<open>\<open>%0<w>x\<close>: zero padded to the width \<open>w\<close>.\<close>

definition show_0x :: "nat \<Rightarrow> nat \<Rightarrow> string" where
  "show_0x w n = replicate (w - length (show_x n)) (CHR ''0'') @ show_x n"

text \<open>\<open>%p\<close> of glibc: hexadecimal with its prefix, \<open>(nil)\<close> for the null pointer.\<close>

definition show_p :: "u64 \<Rightarrow> string" where
  "show_p p = (if p = 0 then ''(nil)'' else ''0x'' @ show_x (unat p))"

section \<open>strtol with base 0\<close>

definition digit_val :: "char \<Rightarrow> nat option" where
  "digit_val c =
     (let n = of_char c :: nat in
      if 48 \<le> n \<and> n \<le> 57 then Some (n - 48)
      else if 97 \<le> n \<and> n \<le> 122 then Some (n - 87)
      else if 65 \<le> n \<and> n \<le> 90 then Some (n - 55)
      else None)"

definition is_digit :: "nat \<Rightarrow> char \<Rightarrow> bool" where
  "is_digit b c = (case digit_val c of Some d \<Rightarrow> d < b | None \<Rightarrow> False)"

fun read_digits :: "nat \<Rightarrow> nat \<Rightarrow> string \<Rightarrow> nat" where
  "read_digits b acc [] = acc"
| "read_digits b acc (c # cs) =
     (if is_digit b c then read_digits b (b * acc + the (digit_val c)) cs else acc)"

definition is_space :: "char \<Rightarrow> bool" where
  "is_space c = (let n = of_char c :: nat in n = 32 \<or> (9 \<le> n \<and> n \<le> 13))"

fun strip_sign :: "string \<Rightarrow> bool \<times> string" where
  "strip_sign [] = (False, [])"
| "strip_sign (c # cs) =
     (if c = CHR ''-'' then (True, cs) else if c = CHR ''+'' then (False, cs) else (False, c # cs))"

definition strip_base :: "string \<Rightarrow> nat \<times> string" where
  "strip_base s =
     (case s of
        z # x # d # _ \<Rightarrow>
          (if z = CHR ''0'' \<and> (x = CHR ''x'' \<or> x = CHR ''X'') \<and> is_digit 16 d then (16, drop 2 s)
           else if z = CHR ''0'' then (8, s) else (10, s))
      | z # _ \<Rightarrow> (if z = CHR ''0'' then (8, s) else (10, s))
      | [] \<Rightarrow> (10, s))"

definition LONG_MAX :: int where "LONG_MAX = 2 ^ 63 - 1"
definition LONG_MIN :: int where "LONG_MIN = - (2 ^ 63)"

definition strtol :: "string \<Rightarrow> int" where
  "strtol s =
     (let (neg, s1) = strip_sign (dropWhile is_space s);
          (b, s2) = strip_base s1;
          n = int (read_digits b 0 s2)
      in max LONG_MIN (min LONG_MAX (if neg then - n else n)))"

section \<open>Facts about numbers\<close>

lemma of_char_digit_char: "d < 36 \<Longrightarrow> (of_char (digit_char d) :: nat) = (if d < 10 then d + 48 else d + 87)"
  by (simp add: digit_char_def of_char_mod_256)

lemma digit_val_digit_char [simp]: "d < 36 \<Longrightarrow> digit_val (digit_char d) = Some d"
  by (auto simp: digit_val_def of_char_digit_char Let_def)

lemma is_digit_digit_char [simp]: "d < b \<Longrightarrow> b \<le> 36 \<Longrightarrow> is_digit b (digit_char d)"
  by (simp add: is_digit_def)

lemma read_digits_show:
  assumes "2 \<le> b" "b \<le> 36"
  shows "read_digits b acc (show_base b n @ rest) =
         read_digits b (acc * b ^ length (show_base b n) + n) rest"
  using assms
proof (induction b n arbitrary: acc rest rule: show_base.induct)
  case (1 b n)
  show ?case
  proof (cases "n < b")
    case True
    with 1 show ?thesis by (simp add: show_base.simps [of b n] mult.commute)
  next
    case False
    with 1 have IH: "\<And>acc rest. read_digits b acc (show_base b (n div b) @ rest) =
        read_digits b (acc * b ^ length (show_base b (n div b)) + n div b) rest"
      by simp
    have d: "n mod b < b" using 1 by simp
    then have d36: "n mod b < 36" using 1 by linarith
    have n: "b * (n div b) + (n mod b + x) = n + x" for x
      by (simp add: add.assoc [symmetric])
    from False 1 d d36 show ?thesis
      by (simp add: show_base.simps [of b n] IH algebra_simps n)
  qed
qed

lemma length_show_base:
  "2 \<le> b \<Longrightarrow> 0 < k \<Longrightarrow> n < b ^ k \<Longrightarrow> length (show_base b n) \<le> k"
proof (induction b n arbitrary: k rule: show_base.induct)
  case (1 b n)
  show ?case
  proof (cases "n < b")
    case True
    with 1 show ?thesis by (simp add: show_base.simps [of b n])
  next
    case False
    with 1 obtain j where k: "k = Suc j" "0 < j"
      by (metis Suc_pred power_one_right neq0_conv One_nat_def)
    then have "n div b < b ^ j"
      using 1 by (simp add: less_mult_imp_div_less mult.commute)
    with 1 False k show ?thesis by (simp add: show_base.simps [of b n])
  qed
qed

lemma show_base_nonempty: "show_base b n \<noteq> []"
  by (subst show_base.simps) simp

lemma set_show_base:
  "2 \<le> b \<Longrightarrow> c \<in> set (show_base b n) \<Longrightarrow> \<exists>d < b. c = digit_char d"
proof (induction b n rule: show_base.induct)
  case (1 b n)
  have "n mod b < b" using 1 by simp
  show ?case
  proof (cases "n < b")
    case True
    with 1 show ?thesis by (auto simp: show_base.simps [of b n])
  next
    case False
    with 1 have "c \<in> set (show_base b (n div b)) \<or> c = digit_char (n mod b)"
      by (auto simp: show_base.simps [of b n])
    then show ?thesis
    proof
      assume "c = digit_char (n mod b)"
      with \<open>n mod b < b\<close> show ?thesis by blast
    qed (use 1 False in simp)
  qed
qed

lemma hd_show_base_digit: "2 \<le> b \<Longrightarrow> b \<le> 36 \<Longrightarrow> is_digit b (hd (show_base b n))"
  using set_show_base [of b "hd (show_base b n)" n]
  by (auto simp: show_base_nonempty)

lemma read_digits_show_0:
  "2 \<le> b \<Longrightarrow> b \<le> 36 \<Longrightarrow> read_digits b 0 (show_base b n) = n"
  using read_digits_show [of b 0 n "[]"] by simp

lemma digit_char_eq [simp]: "c < 36 \<Longrightarrow> d < 36 \<Longrightarrow> digit_char c = digit_char d \<longleftrightarrow> c = d"
  by (metis digit_val_digit_char option.inject)

lemma hd_show_base_pos:
  "2 \<le> b \<Longrightarrow> b \<le> 36 \<Longrightarrow> 0 < n \<Longrightarrow> \<exists>d. 0 < d \<and> d < b \<and> hd (show_base b n) = digit_char d"
proof (induction b n rule: show_base.induct)
  case (1 b n)
  show ?case
  proof (cases "n < b")
    case False
    then have "0 < n div b" using 1 by (simp add: div_greater_zero_iff)
    with False 1 show ?thesis by (simp add: show_base.simps [of b n] show_base_nonempty)
  qed (use 1 in \<open>auto simp: show_base.simps [of b n]\<close>)
qed

text \<open>Characters a printed number can hold: no blank, no sign, no NUL.\<close>

lemma digit_char_plain:
  assumes "d < 36"
  shows "digit_char d \<noteq> CHR '' ''" "digit_char d \<noteq> CHR ''-''" "digit_char d \<noteq> CHR ''+''"
    "digit_char d \<noteq> NUL" "\<not> is_space (digit_char d)"
  using of_char_digit_char [OF assms] assms by (auto simp: is_space_def Let_def split: if_splits)

lemma strip_sign_digit: "d < 36 \<Longrightarrow> strip_sign (digit_char d # s) = (False, digit_char d # s)"
  by (simp add: digit_char_plain)

lemma digit_char_0: "digit_char 0 = CHR ''0''"
  by code_simp

lemma strtol_hex: "strtol (''0x'' @ show_x n) = min LONG_MAX (int n)"
proof -
  obtain c cs where s: "show_x n = c # cs"
    by (cases "show_x n") (auto simp: show_x_def show_base_nonempty)
  have c: "is_digit 16 c" using hd_show_base_digit [of 16 n] s by (simp add: show_x_def)
  have "read_digits 16 0 (c # cs) = n"
    using read_digits_show_0 [of 16 n] s by (simp add: show_x_def)
  then show ?thesis
    using c by (simp add: strtol_def s strip_base_def is_space_def Let_def LONG_MIN_def LONG_MAX_def)
qed

lemma strtol_p: "strtol (show_p p) = min LONG_MAX (uint p)"
proof (cases "p = 0")
  case True
  then show ?thesis by (simp add: show_p_def) code_simp
next
  case False
  then show ?thesis using strtol_hex [of "unat p"] by (simp add: show_p_def)
qed

lemma strtol_u: "strtol (show_u n) = min LONG_MAX (int n)"
proof (cases "n = 0")
  case True
  have "show_u 0 = ''0''" by code_simp
  with True show ?thesis by (simp add: LONG_MAX_def) code_simp
next
  case False
  then obtain d where d: "0 < d" "d < 10" "hd (show_u n) = digit_char d"
    using hd_show_base_pos [of 10 n] by (auto simp: show_u_def)
  then obtain cs where s: "show_u n = digit_char d # cs"
    by (cases "show_u n") (auto simp: show_u_def show_base_nonempty)
  have "digit_char d \<noteq> CHR ''0''" using digit_char_eq [of d 0] d by (simp add: digit_char_0)
  then have b: "strip_base (digit_char d # cs) = (10, digit_char d # cs)"
    by (simp add: strip_base_def split: list.splits)
  have "read_digits 10 0 (digit_char d # cs) = n"
    using read_digits_show_0 [of 10 n] s by (simp add: show_u_def)
  then show ?thesis
    using d b by (simp add: strtol_def s strip_sign_digit digit_char_plain del: strip_sign.simps read_digits.simps)
      (simp add: LONG_MIN_def LONG_MAX_def)
qed

end
