(* ===== verification/Getopt.thy ===== *)
theory Getopt
  imports Libc
begin

text \<open>
  The C library's \<open>getopt\<close> as the plugins use it (GNU libc, short options, the default
  PERMUTE order): its hidden static state, the permutation that moves operands behind the
  options, and the loop \<open>while ((c = getopt(argc, argv, s)) != -1)\<close>. All plugins are
  loaded into one process, so this state is shared by all of them; the state is explicit
  here, and so is what a scan does when it starts from the state an earlier scan left.
\<close>

section \<open>The state and one call\<close>

record getopt_state =
  optind :: nat
  nextchar :: string
  first_nonopt :: nat
  last_nonopt :: nat
  initialized :: bool

definition getopt_start :: getopt_state where
  "getopt_start =
     \<lparr>optind = 1, nextchar = [], first_nonopt = 0, last_nonopt = 0, initialized = False\<rparr>"

text \<open>\<open>optind = 0\<close>, and the very first call, make the next scan start afresh.\<close>

definition getopt_fresh :: "getopt_state \<Rightarrow> bool" where
  "getopt_fresh g \<longleftrightarrow> optind g = 0 \<or> (optind g = 1 \<and> \<not> initialized g)"

definition getopt_init :: "getopt_state \<Rightarrow> getopt_state" where
  "getopt_init g =
     (if optind g = 0 \<or> \<not> initialized g then
        let i = (if optind g = 0 then 1 else optind g)
        in \<lparr>optind = i, nextchar = [], first_nonopt = i, last_nonopt = i, initialized = True\<rparr>
      else g)"

definition is_nonopt :: "string \<Rightarrow> bool" where
  "is_nonopt a \<longleftrightarrow> a = [] \<or> hd a \<noteq> CHR ''-'' \<or> tl a = []"

text \<open>
  \<open>exchange\<close> swaps the blocks \<open>[first, last)\<close> (operands) and \<open>[last, optind)\<close>
  (options). The guard always holds in the library; it makes the function total.
\<close>

definition getopt_exchange :: "getopt_state \<Rightarrow> string list \<Rightarrow> getopt_state \<times> string list" where
  "getopt_exchange g argv =
     (let f = first_nonopt g; l = last_nonopt g; i = optind g
      in (g\<lparr>first_nonopt := f + (i - l), last_nonopt := i\<rparr>,
          if f \<le> l \<and> l \<le> i \<and> i \<le> length argv
          then take f argv @ take (i - l) (drop l argv) @ take (l - f) (drop f argv) @ drop i argv
          else argv))"

definition skip_nonopts :: "string list \<Rightarrow> nat \<Rightarrow> nat" where
  "skip_nonopts argv i = i + length (takeWhile is_nonopt (drop i argv))"

text \<open>Permute what was skipped, then skip further operands.\<close>

definition getopt_permute :: "getopt_state \<Rightarrow> string list \<Rightarrow> getopt_state \<times> string list" where
  "getopt_permute g argv =
     (let i = optind g;
          g1 = g\<lparr>first_nonopt := min (first_nonopt g) i, last_nonopt := min (last_nonopt g) i\<rparr>;
          (g2, argv2) =
            (if first_nonopt g1 \<noteq> last_nonopt g1 \<and> last_nonopt g1 \<noteq> i then getopt_exchange g1 argv
             else if last_nonopt g1 \<noteq> i then (g1\<lparr>first_nonopt := i\<rparr>, argv)
             else (g1, argv));
          j = skip_nonopts argv2 i
      in (g2\<lparr>optind := j, last_nonopt := j\<rparr>, argv2))"

text \<open>The element \<open>--\<close> ends the options.\<close>

definition getopt_dashdash :: "getopt_state \<Rightarrow> string list \<Rightarrow> getopt_state \<times> string list" where
  "getopt_dashdash g argv =
     (if optind g \<noteq> length argv \<and> argv ! optind g = ''--'' then
        let g1 = g\<lparr>optind := optind g + 1\<rparr>;
            (g2, argv2) =
              (if first_nonopt g1 \<noteq> last_nonopt g1 \<and> last_nonopt g1 \<noteq> optind g1
               then getopt_exchange g1 argv
               else if first_nonopt g1 = last_nonopt g1
               then (g1\<lparr>first_nonopt := optind g1\<rparr>, argv)
               else (g1, argv))
        in (g2\<lparr>last_nonopt := length argv, optind := length argv\<rparr>, argv2)
      else (g, argv))"

datatype opt_kind = Flag | With_Arg

definition opt_kind :: "string \<Rightarrow> char \<Rightarrow> opt_kind option" where
  "opt_kind os c =
     (if c = CHR '':'' \<or> c = CHR '';'' then None
      else case dropWhile (\<lambda>x. x \<noteq> c) os of
        [] \<Rightarrow> None
      | _ # rest \<Rightarrow> Some (if rest \<noteq> [] \<and> hd rest = CHR '':'' then With_Arg else Flag))"

text \<open>
  A call's answer: \<open>None\<close> is -1; an option comes with its \<open>optarg\<close>, and \<open>?\<close> with the line
  that \<open>getopt\<close> prints on the standard error stream, as no source clears \<open>opterr\<close>.
\<close>

type_synonym opt = "char \<times> string option \<times> string option"
type_synonym getopt_answer = "opt option \<times> getopt_state \<times> string list"

definition getopt_message :: "string list \<Rightarrow> string \<Rightarrow> char \<Rightarrow> string" where
  "getopt_message argv msg c = hd argv @ '': '' @ msg @ '' -- '' @ [CHR 0x27, c, CHR 0x27]"

text \<open>The next character of the element being scanned.\<close>

definition getopt_short :: "string \<Rightarrow> getopt_state \<Rightarrow> string list \<Rightarrow> fault + (opt \<times> getopt_state)" where
  "getopt_short os g argv =
     (let c = hd (nextchar g); rest = tl (nextchar g);
          i = (if rest = [] then optind g + 1 else optind g);
          g1 = g\<lparr>nextchar := rest, optind := i\<rparr>
      in case opt_kind os c of
           None \<Rightarrow> Inr ((CHR ''?'', None, Some (getopt_message argv ''invalid option'' c)), g1)
         | Some Flag \<Rightarrow> Inr ((c, None, None), g1)
         | Some With_Arg \<Rightarrow>
             if rest \<noteq> [] then Inr ((c, Some rest, None), g1\<lparr>nextchar := [], optind := i + 1\<rparr>)
             else if i = length argv then Inr
               ((CHR ''?'', None, Some (getopt_message argv ''option requires an argument'' c)), g1\<lparr>nextchar := []\<rparr>)
             else if i < length argv
             then Inr ((c, Some (argv ! i), None), g1\<lparr>nextchar := [], optind := i + 1\<rparr>)
             else Inl Out_Of_Bounds)"

definition getopt :: "string \<Rightarrow> getopt_state \<Rightarrow> string list \<Rightarrow> fault + getopt_answer" where
  "getopt os g argv =
     (if argv = [] then Inr (None, g, argv)
      else let g0 = getopt_init g in
        if nextchar g0 \<noteq> [] then
          bind_res (getopt_short os g0 argv) (\<lambda>(r, g'). Inr (Some r, g', argv))
        else let (g1, argv1) = getopt_permute g0 argv in
          if length argv1 < optind g1 then Inl Out_Of_Bounds
          else let (g2, argv2) = getopt_dashdash g1 argv1 in
            if optind g2 = length argv2
            then Inr (None, g2\<lparr>optind := if first_nonopt g2 \<noteq> last_nonopt g2
                                          then first_nonopt g2 else optind g2\<rparr>, argv2)
            else bind_res (getopt_short os (g2\<lparr>nextchar := tl (argv2 ! optind g2)\<rparr>) argv2)
                   (\<lambda>(r, g'). Inr (Some r, g', argv2)))"

section \<open>The scanning loop terminates\<close>

definition chars_from :: "nat \<Rightarrow> string list \<Rightarrow> nat" where
  "chars_from i argv = sum_list (map (\<lambda>a. Suc (length a)) (drop i argv))"

definition getopt_left :: "getopt_state \<Rightarrow> string list \<Rightarrow> nat" where
  "getopt_left g argv =
     (if argv = [] then 0
      else let g0 = getopt_init g in
        if nextchar g0 = [] then chars_from (optind g0) argv
        else length (nextchar g0) + chars_from (optind g0 + 1) argv)"

lemma chars_from_mono: "i \<le> j \<Longrightarrow> chars_from j argv \<le> chars_from i argv"
proof -
  assume "i \<le> j"
  then have "drop j argv = drop (j - i) (drop i argv)" by (simp add: add.commute)
  moreover have "sum_list (map f (drop k xs)) \<le> sum_list (map f xs)" for f :: "string \<Rightarrow> nat" and k xs
    by (induction xs arbitrary: k) (auto simp: drop_Cons' intro: trans_le_add2)
  ultimately show ?thesis by (simp only: chars_from_def)
qed

lemma chars_from_step:
  "i < length argv \<Longrightarrow> chars_from i argv = Suc (length (argv ! i)) + chars_from (Suc i) argv"
  by (simp add: chars_from_def Cons_nth_drop_Suc [symmetric])

lemma exchange_drop:
  "getopt_exchange g argv = (g', argv') \<Longrightarrow> drop (optind g) argv' = drop (optind g) argv"
  by (auto simp: getopt_exchange_def Let_def min_def split: if_splits)

lemma exchange_length: "getopt_exchange g argv = (g', argv') \<Longrightarrow> length argv' = length argv"
  by (auto simp: getopt_exchange_def Let_def split: if_splits)

lemma exchange_optind: "getopt_exchange g argv = (g', argv') \<Longrightarrow> optind g' = optind g"
  by (auto simp: getopt_exchange_def Let_def)

lemma permute_props:
  assumes "getopt_permute g argv = (g', argv')"
  shows "length argv' = length argv" "drop (optind g) argv' = drop (optind g) argv"
    "optind g' = skip_nonopts argv' (optind g)" "initialized g' = initialized g"
    "last_nonopt g' = optind g'" "nextchar g' = nextchar g"
  using assms exchange_length exchange_drop
  by (auto simp: getopt_permute_def Let_def getopt_exchange_def split: prod.splits if_splits)

lemma getopt_short_props:
  assumes "getopt_short os g argv = Inr (r, g')" "nextchar g \<noteq> []" "initialized g" "0 < optind g"
  shows "initialized g'" "0 < optind g'" "optind g \<le> optind g'"
    "optind g' = optind g \<Longrightarrow> nextchar g' = tl (nextchar g) \<and> nextchar g' \<noteq> []"
    "optind g < optind g' \<Longrightarrow> nextchar g' = []"
  using assms
  by (auto simp: getopt_short_def Let_def split: option.splits opt_kind.splits if_splits)

lemma getopt_short_left:
  assumes s: "getopt_short os g argv = Inr (r, g')" and g: "nextchar g \<noteq> []" "initialized g" "0 < optind g"
    and ne: "argv \<noteq> []"
  shows "getopt_left g' argv < length (nextchar g) + chars_from (optind g + 1) argv"
proof -
  note p = getopt_short_props [OF s g]
  have init: "getopt_init g' = g'" using p(1,2) by (simp add: getopt_init_def)
  show ?thesis
  proof (cases "optind g' = optind g")
    case True
    with p(4) have "nextchar g' = tl (nextchar g)" "nextchar g' \<noteq> []" by auto
    with True init ne g show ?thesis by (simp add: getopt_left_def)
  next
    case False
    with p(3) have lt: "optind g < optind g'" by simp
    with p(5) have "nextchar g' = []" by simp
    then have "getopt_left g' argv = chars_from (optind g') argv"
      using init ne by (simp add: getopt_left_def)
    also have "\<dots> \<le> chars_from (optind g + 1) argv" using lt by (intro chars_from_mono) simp
    finally show ?thesis using g by (cases "nextchar g") auto
  qed
qed

lemma getopt_init_props:
  "initialized (getopt_init g)" "initialized g \<or> optind g \<noteq> 0 \<Longrightarrow> 0 < optind (getopt_init g)"
  by (auto simp: getopt_init_def Let_def)

lemma getopt_init_pos: "0 < optind (getopt_init g)"
  by (simp add: getopt_init_def Let_def)

lemma dashdash_cases:
  assumes "getopt_dashdash g argv = (g', argv')"
  shows "optind g' = length argv' \<or> (g' = g \<and> argv' = argv)"
proof (cases "optind g \<noteq> length argv \<and> argv ! optind g = ''--''")
  case True
  define g1 where "g1 = g\<lparr>optind := optind g + 1\<rparr>"
  obtain g2 argv2 where e: "getopt_exchange g1 argv = (g2, argv2)" by fastforce
  from True assms have "optind g' = length argv" "argv' = argv2 \<or> argv' = argv"
    by (auto simp: getopt_dashdash_def Let_def e [unfolded g1_def, simplified] split: if_splits)
  with exchange_length [OF e] show ?thesis by auto
qed (use assms in \<open>auto simp: getopt_dashdash_def\<close>)

lemma dashdash_length:
  assumes "getopt_dashdash g argv = (g', argv')"
  shows "length argv' = length argv"
proof -
  obtain g2 argv2 where e: "getopt_exchange (g\<lparr>optind := Suc (optind g)\<rparr>) argv = (g2, argv2)"
    by fastforce
  then have "length argv2 = length argv" by (rule exchange_length)
  with assms e show ?thesis by (auto simp: getopt_dashdash_def Let_def split: if_splits)
qed

lemma permute_stops_at_option:
  assumes "getopt_permute g argv = (g', argv')" "optind g' < length argv'"
  shows "\<not> is_nonopt (argv' ! optind g')"
proof -
  have "length (takeWhile is_nonopt (drop (optind g) argv')) < length (drop (optind g) argv')"
    using assms permute_props(3) [OF assms(1)] by (simp add: skip_nonopts_def)
  from nth_length_takeWhile [OF this] show ?thesis
    using permute_props(3) [OF assms(1)] assms(2) by (simp add: skip_nonopts_def add.commute)
qed

lemma getopt_decreases:
  assumes "getopt os g argv = Inr (Some r, g', argv')"
  shows "getopt_left g' argv' < getopt_left g argv"
proof -
  define g0 where "g0 = getopt_init g"
  have ne: "argv \<noteq> []" using assms by (auto simp: getopt_def)
  have g0: "initialized g0" "0 < optind g0"
    by (simp_all add: g0_def getopt_init_props getopt_init_pos)
  show ?thesis
  proof (cases "nextchar g0 = []")
    case False
    with assms ne have "getopt_short os g0 argv = Inr (r, g')" "argv' = argv"
      by (auto simp: getopt_def Let_def g0_def [symmetric] bind_res_eq_Inr)
    from getopt_short_left [OF this(1) False g0 ne] this(2) show ?thesis
      using ne False by (simp add: getopt_left_def g0_def Let_def)
  next
    case True
    obtain g1 argv1 where 1: "getopt_permute g0 argv = (g1, argv1)" by fastforce
    note p = permute_props [OF 1]
    obtain g2 argv2 where 2: "getopt_dashdash g1 argv1 = (g2, argv2)" by fastforce
    have le: "optind g1 \<le> length argv1" and opt: "optind g2 \<noteq> length argv2"
      and sh: "getopt_short os (g2\<lparr>nextchar := tl (argv2 ! optind g2)\<rparr>) argv2 = Inr (r, g')"
      and argv': "argv' = argv2"
      using assms ne True 1 2
      by (auto simp: getopt_def Let_def g0_def [symmetric] bind_res_eq_Inr split: if_splits)
    from dashdash_cases [OF 2] opt have eq: "g2 = g1" "argv2 = argv1" by auto
    with le opt have lt: "optind g1 < length argv1" by simp
    have pos: "0 < optind g1" using p(3) g0(2) by (simp add: skip_nonopts_def)
    have "\<not> is_nonopt (argv1 ! optind g1)" by (rule permute_stops_at_option [OF 1 lt])
    then have tl: "tl (argv1 ! optind g1) \<noteq> []" by (simp add: is_nonopt_def)
    have ne1: "argv1 \<noteq> []" using lt by auto
    have "getopt_left g' argv1 <
        length (tl (argv1 ! optind g1)) + chars_from (optind g1 + 1) argv1"
      using getopt_short_left [OF sh] tl eq p(4) g0(1) pos ne1 by simp
    also have "\<dots> \<le> chars_from (optind g1) argv1"
      using chars_from_step [OF lt] by simp
    also have "\<dots> \<le> chars_from (optind g0) argv1"
      by (rule chars_from_mono) (simp add: p(3) skip_nonopts_def)
    also have "\<dots> = chars_from (optind g0) argv" by (simp add: chars_from_def p(2))
    also have "\<dots> = getopt_left g argv" using ne True by (simp add: getopt_left_def g0_def Let_def)
    finally show ?thesis using argv' eq by simp
  qed
qed

text \<open>
  The loop collects what its body sees, in order: the option character (\<open>?\<close> for an
  unknown option or a missing argument) and \<open>optarg\<close>, with what was printed on the way.
\<close>

function getopt_loop ::
    "string \<Rightarrow> getopt_state \<Rightarrow> string list \<Rightarrow> fault + (opt list \<times> getopt_state \<times> string list)" where
  "getopt_loop os g argv =
     (case getopt os g argv of
        Inl e \<Rightarrow> Inl e
      | Inr (None, g', argv') \<Rightarrow> Inr ([], g', argv')
      | Inr (Some r, g', argv') \<Rightarrow>
          (case getopt_loop os g' argv' of
             Inl e \<Rightarrow> Inl e
           | Inr (rs, z) \<Rightarrow> Inr (r # rs, z)))"
  by pat_completeness auto
termination
  by (relation "measure (\<lambda>(os, g, argv). getopt_left g argv)") (auto dest: getopt_decreases)

declare getopt_loop.simps [simp del]

text \<open>Evaluation of a scan on a concrete vector, by \<open>simp\<close>.\<close>

lemmas getopt_eval =
  getopt_loop.simps getopt_def getopt_init_def getopt_permute_def skip_nonopts_def is_nonopt_def
  getopt_dashdash_def getopt_short_def opt_kind_def getopt_exchange_def Let_def

definition complaints :: "opt list \<Rightarrow> string list" where
  "complaints opts = concat (map (\<lambda>(_, _, msg). case msg of None \<Rightarrow> [] | Some m \<Rightarrow> [m]) opts)"

lemma complaints_simps [simp]:
  "complaints [] = []" "complaints ((c, a, None) # opts) = complaints opts"
  "complaints ((c, a, Some m) # opts) = m # complaints opts"
  "complaints (xs @ ys) = complaints xs @ complaints ys"
  by (simp_all add: complaints_def)

section \<open>Scans from a fresh state\<close>

lemma getopt_fresh_start [simp]: "getopt_fresh getopt_start"
  by (simp add: getopt_fresh_def getopt_start_def)

lemma getopt_init_fresh: "getopt_fresh g \<Longrightarrow> getopt_init g = getopt_init getopt_start"
  by (auto simp: getopt_fresh_def getopt_init_def getopt_start_def)

lemma getopt_fresh_cong:
  "getopt_fresh g \<Longrightarrow> argv \<noteq> [] \<Longrightarrow> getopt os g argv = getopt os getopt_start argv"
  unfolding getopt_def by (subst getopt_init_fresh [of g]) simp_all

lemma getopt_loop_fresh:
  "getopt_fresh g \<Longrightarrow> argv \<noteq> [] \<Longrightarrow> getopt_loop os g argv = getopt_loop os getopt_start argv"
  by (subst (1 2) getopt_loop.simps) (subst getopt_fresh_cong [of g], simp_all)

text \<open>What holds between the calls of a scan: no index points outside the vector.\<close>

definition getopt_ok :: "getopt_state \<Rightarrow> string list \<Rightarrow> bool" where
  "getopt_ok g argv \<longleftrightarrow>
     initialized g \<and> 0 < first_nonopt g \<and> first_nonopt g \<le> last_nonopt g \<and>
     last_nonopt g \<le> optind g \<and> optind g \<le> length argv \<and>
     (nextchar g \<noteq> [] \<longrightarrow> optind g < length argv)"

lemma getopt_ok_init:
  "getopt_fresh g \<Longrightarrow> argv \<noteq> [] \<Longrightarrow> getopt_ok (getopt_init g) argv"
  by (cases argv) (auto simp: getopt_ok_def getopt_init_def getopt_fresh_def)

lemma permute_ok:
  assumes "getopt_permute g argv = (g', argv')" "getopt_ok g argv" "nextchar g = []"
  shows "getopt_ok g' argv'"
proof -
  note p = permute_props [OF assms(1)]
  have "skip_nonopts argv' (optind g) \<le> length argv'"
    using assms(2) p(1) length_takeWhile_le [of is_nonopt "drop (optind g) argv'"]
    unfolding skip_nonopts_def getopt_ok_def length_drop by linarith
  moreover have "0 < first_nonopt g' \<and> first_nonopt g' \<le> optind g"
    using assms by (auto simp: getopt_permute_def getopt_ok_def getopt_exchange_def Let_def
        split: prod.splits if_splits)
  moreover have "optind g \<le> skip_nonopts argv' (optind g)"
    by (simp add: skip_nonopts_def)
  ultimately show ?thesis
    using p assms(2,3) by (simp add: getopt_ok_def)
qed

lemma getopt_short_ok:
  assumes "getopt_ok g argv" "nextchar g \<noteq> []"
  shows "\<exists>r g'. getopt_short os g argv = Inr (r, g') \<and> getopt_ok g' argv"
proof (cases "opt_kind os (hd (nextchar g))")
  case None
  with assms show ?thesis by (auto simp: getopt_short_def getopt_ok_def Let_def)
next
  case (Some k)
  with assms show ?thesis
    by (cases k; cases "tl (nextchar g) = []") (auto simp: getopt_short_def getopt_ok_def Let_def)
qed

lemma getopt_init_ok: "getopt_ok h xs \<Longrightarrow> getopt_init h = h"
  by (simp add: getopt_ok_def getopt_init_def)

lemma getopt_total:
  assumes ok: "getopt_ok (getopt_init g) argv" and ne: "argv \<noteq> []"
  shows "\<exists>a g' argv'. getopt os g argv = Inr (a, g', argv') \<and> length argv' = length argv \<and>
           (a \<noteq> None \<longrightarrow> getopt_ok (getopt_init g') argv')"
proof -
  define g0 where "g0 = getopt_init g"
  note gd = getopt_def [of os g argv, folded g0_def, simplified Let_def]
  have ok0: "getopt_ok g0 argv" using ok by (simp add: g0_def)
  show ?thesis
  proof (cases "nextchar g0 = []")
    case False
    then obtain r g' where r: "getopt_short os g0 argv = Inr (r, g')" "getopt_ok g' argv"
      using getopt_short_ok [OF ok0] by blast
    with False ne have "getopt os g argv = Inr (Some r, g', argv)" by (simp add: gd)
    moreover have "getopt_ok (getopt_init g') argv" using r by (simp add: getopt_init_ok)
    ultimately show ?thesis by blast
  next
    case True
    obtain g1 argv1 where 1: "getopt_permute g0 argv = (g1, argv1)" by fastforce
    have ok1: "getopt_ok g1 argv1" by (rule permute_ok [OF 1 ok0 True])
    obtain g2 argv2 where 2: "getopt_dashdash g1 argv1 = (g2, argv2)" by fastforce
    have len: "length argv2 = length argv"
      using permute_props(1) [OF 1] dashdash_length [OF 2] by simp
    have le: "\<not> length argv1 < optind g1" using ok1 by (simp add: getopt_ok_def)
    note eval = gd True ne 1 2 le
    show ?thesis
    proof (cases "optind g2 = length argv2")
      case True
      then show ?thesis using len by (simp add: eval)
    next
      case False
      with dashdash_cases [OF 2] have eq: "g2 = g1" "argv2 = argv1" by auto
      with False ok1 have lt: "optind g1 < length argv1" by (simp add: getopt_ok_def)
      let ?h = "g1\<lparr>nextchar := tl (argv1 ! optind g1)\<rparr>"
      have "nextchar ?h \<noteq> []" "getopt_ok ?h argv1"
        using ok1 lt permute_stops_at_option [OF 1 lt] by (auto simp: is_nonopt_def getopt_ok_def)
      then obtain r g' where r: "getopt_short os ?h argv1 = Inr (r, g')" "getopt_ok g' argv1"
        using getopt_short_ok by blast
      have "getopt os g argv = Inr (Some r, g', argv1)"
        using False r by (simp add: eval eq)
      moreover have "getopt_ok (getopt_init g') argv1" using r by (simp add: getopt_init_ok)
      ultimately show ?thesis using len eq by blast
    qed
  qed
qed

text \<open>A scan that starts fresh never reads outside the argument vector.\<close>

lemma getopt_loop_total:
  assumes "getopt_ok (getopt_init g) argv" "argv \<noteq> []"
  shows "\<exists>rs g' argv'. getopt_loop os g argv = Inr (rs, g', argv') \<and> length argv' = length argv"
  using assms
proof (induction os g argv rule: getopt_loop.induct)
  case (1 os g argv)
  then obtain a g' argv' where a: "getopt os g argv = Inr (a, g', argv')"
      "length argv' = length argv" "a \<noteq> None \<longrightarrow> getopt_ok (getopt_init g') argv'"
    using getopt_total by blast
  show ?case
  proof (cases a)
    case None
    with a show ?thesis by (subst getopt_loop.simps) simp
  next
    case (Some r)
    with a "1.prems" have "argv' \<noteq> []" by auto
    with a Some "1.IH" obtain rs g'' argv'' where
      "getopt_loop os g' argv' = Inr (rs, g'', argv'')" "length argv'' = length argv'"
      by blast
    with a Some show ?thesis by (subst getopt_loop.simps) simp
  qed
qed

lemma getopt_loop_fresh_total:
  "getopt_fresh g \<Longrightarrow> argv \<noteq> [] \<Longrightarrow>
     \<exists>rs g' argv'. getopt_loop os g argv = Inr (rs, g', argv') \<and> length argv' = length argv"
  by (intro getopt_loop_total getopt_ok_init)

text \<open>Without options the scan leaves the vector alone and ends at its first operand.\<close>

lemma getopt_loop_operands:
  assumes f: "getopt_fresh g" and args: "\<forall>a \<in> set args. is_nonopt a"
  shows "getopt_loop os g (name # args) =
    Inr ([], \<lparr>optind = 1, nextchar = [], first_nonopt = 1, last_nonopt = Suc (length args),
              initialized = True\<rparr>, name # args)"
proof -
  define g1 where "g1 = \<lparr>optind = Suc (length args), nextchar = [], first_nonopt = 1,
      last_nonopt = Suc (length args), initialized = True\<rparr>"
  have g0: "getopt_init g = \<lparr>optind = 1, nextchar = [], first_nonopt = 1, last_nonopt = 1,
      initialized = True\<rparr>"
    using f by (auto simp: getopt_init_def getopt_fresh_def)
  have skip: "skip_nonopts (name # args) (Suc 0) = Suc (length args)"
    using args by (simp add: skip_nonopts_def takeWhile_eq_all_conv [THEN iffD2])
  have p: "getopt_permute (getopt_init g) (name # args) = (g1, name # args)"
    using skip by (simp add: getopt_permute_def g0 g1_def)
  have d: "getopt_dashdash g1 (name # args) = (g1, name # args)"
    by (simp add: getopt_dashdash_def g1_def)
  have "nextchar (getopt_init g) = []" by (simp add: g0)
  then have "getopt os g (name # args) = Inr (None, g1\<lparr>optind := 1\<rparr>, name # args)"
    using p d by (simp add: getopt_def) (auto simp: g1_def)
  then show ?thesis by (subst getopt_loop.simps) (simp add: g1_def)
qed

text \<open>Words that are one flag each are reported in order.\<close>

lemma getopt_init_idem: "getopt_init (getopt_init g) = getopt_init g"
  by (simp add: getopt_init_def Let_def)

lemma getopt_loop_init: "argv \<noteq> [] \<Longrightarrow> getopt_loop os g argv = getopt_loop os (getopt_init g) argv"
  by (subst (1 2) getopt_loop.simps) (simp add: getopt_def getopt_init_idem)

lemma getopt_loop_flags:
  assumes "\<forall>c \<in> set cs. opt_kind os c = Some Flag \<and> c \<noteq> CHR ''-''" "pre \<noteq> []"
  shows "initialized g \<Longrightarrow> nextchar g = [] \<Longrightarrow> optind g = length pre \<Longrightarrow> first_nonopt g = last_nonopt g \<Longrightarrow>
    last_nonopt g \<le> optind g \<Longrightarrow>
    \<exists>g'. getopt_loop os g (pre @ map (\<lambda>c. [CHR ''-'', c]) cs) =
      Inr (map (\<lambda>c. (c, None, None)) cs, g', pre @ map (\<lambda>c. [CHR ''-'', c]) cs)"
  using assms
proof (induction cs arbitrary: g pre)
  case Nil
  then show ?case
    by (subst getopt_loop.simps)
       (simp add: getopt_def getopt_init_def getopt_permute_def getopt_dashdash_def skip_nonopts_def Let_def)
next
  case (Cons c cs)
  let ?argv = "pre @ map (\<lambda>c. [CHR ''-'', c]) (c # cs)"
  let ?g = "\<lparr>optind = Suc (length pre), nextchar = [], first_nonopt = length pre, last_nonopt = length pre, initialized = True\<rparr>"
  have one: "getopt os g ?argv = Inr (Some (c, None, None), ?g, ?argv)"
    using Cons.prems
    by (simp add: getopt_def getopt_init_def getopt_permute_def getopt_dashdash_def skip_nonopts_def Let_def
        is_nonopt_def getopt_short_def nth_append)
  have "?argv = (pre @ [[CHR ''-'', c]]) @ map (\<lambda>c. [CHR ''-'', c]) cs" by simp
  with Cons.IH [of ?g "pre @ [[CHR ''-'', c]]"] Cons.prems(6) obtain g' where
    "getopt_loop os ?g ?argv = Inr (map (\<lambda>c. (c, None, None)) cs, g', ?argv)" by auto
  with one have "getopt_loop os g ?argv = Inr (map (\<lambda>c. (c, None, None)) (c # cs), g', ?argv)"
    by (subst getopt_loop.simps) (simp only: sum.case prod.case option.case list.map)
  then show ?case by blast
qed


text \<open>A word of unknown option characters: each is reported as \<open>?\<close> with its message.\<close>

lemma getopt_loop_unknown:
  assumes "initialized g" "0 < optind g" "nextchar g = ds" "ds \<noteq> []" "\<forall>c \<in> set ds. opt_kind os c = None" "argv \<noteq> []"
  shows "getopt_loop os g argv =
    (case getopt_loop os (g\<lparr>nextchar := [], optind := Suc (optind g)\<rparr>) argv of
       Inl e \<Rightarrow> Inl e
     | Inr (rs, z) \<Rightarrow> Inr (map (\<lambda>c. (CHR ''?'', None, Some (getopt_message argv ''invalid option'' c))) ds @ rs, z))"
  using assms
proof (induction ds arbitrary: g)
  case (Cons c ds)
  let ?r = "(CHR ''?'', None, Some (getopt_message argv ''invalid option'' c))"
  let ?g = "g\<lparr>nextchar := ds, optind := if ds = [] then Suc (optind g) else optind g\<rparr>"
  have one: "getopt os g argv = Inr (Some ?r, ?g, argv)"
    using Cons.prems by (simp add: getopt_def getopt_init_def getopt_short_def)
  have step: "getopt_loop os g argv = (case getopt_loop os ?g argv of Inl e \<Rightarrow> Inl e | Inr (rs, z) \<Rightarrow> Inr (?r # rs, z))"
    by (subst getopt_loop.simps) (simp only: one sum.case prod.case option.case)
  show ?case
  proof (cases "ds = []")
    case True
    with step show ?thesis by (simp split: sum.split)
  next
    case False
    with Cons.IH [of ?g] Cons.prems step show ?thesis by (simp split: sum.split)
  qed
qed simp

end
