(* ===== verification/Plugin_Api.thy ===== *)
theory Plugin_Api
  imports Getopt
begin

text \<open>
  The interface between the plugins and the rest of the process (\<open>qemu-plugin.h\<close>,
  which is not part of the repository): what a callback can ask QEMU, what the plugins tell
  QEMU and the C library to do (kept as a list of effects in program order), and the
  contract of the entry point \<open>qemu_plugin_control\<close> that \<open>hypersh\<close> calls, as
  locales that every plugin interprets.
\<close>

section \<open>What a callback is told\<close>

text \<open>
  The answers QEMU gives while one callback runs: \<open>qemu_plugin_in_kernel\<close>,
  \<open>qemu_plugin_page_directory\<close>, and for a memory callback \<open>qemu_plugin_mem_is_store\<close>
  of its \<open>meminfo\<close>, the device offset and the is-io flag of \<open>qemu_plugin_get_hwaddr\<close>.
\<close>

record qemu_view =
  q_in_kernel :: bool
  q_page_directory :: u64
  q_is_store :: bool
  q_paddr :: u64
  q_is_io :: bool

section \<open>What a plugin does\<close>

text \<open>A non-null \<open>FILE *\<close>: the standard output or an opened file.\<close>

datatype out_file = Std_Out | Named string

datatype callback_kind =
    On_Tb_Trans | On_Idle | On_Resume | On_Interrupt | On_Interrupt_Ret | On_Syscall | On_Syscall_Ret

datatype effect =
    Stdout string
  | Stderr string
  | File_Open string
  | File_Write out_file string
  | File_Close out_file
  | Register callback_kind
  | Tb_Flush
  | Vcpu_Tb_Flush
  | Plugin_Reset
  | Set_Slomo_Rate u64
  | Mkfifo string
  | Unlink string

definition newline :: string where
  "newline = [CHR 0x0A]"

text \<open>The echo with which the plugins' control functions start.\<close>

definition echo_argv :: "string \<Rightarrow> string list \<Rightarrow> effect list" where
  "echo_argv title argv = Stdout (title @ newline) # map (\<lambda>a. Stdout (a @ newline)) argv"

definition argv0_text :: "string list \<Rightarrow> string" where
  "argv0_text argv = (case argv of [] \<Rightarrow> ''(null)'' | a # _ \<Rightarrow> a)"

definition fputs :: "out_file \<Rightarrow> string \<Rightarrow> effect" where
  "fputs f s = (case f of Std_Out \<Rightarrow> Stdout s | Named n \<Rightarrow> File_Write f s)"

text \<open>What \<open>getopt\<close> prints while it scans.\<close>

definition getopt_errors :: "opt list \<Rightarrow> effect list" where
  "getopt_errors opts = map (\<lambda>m. Stderr (m @ newline)) (complaints opts)"

lemma getopt_errors_simps [simp]:
  "getopt_errors [] = []" "getopt_errors ((c, a, None) # opts) = getopt_errors opts"
  "getopt_errors ((c, a, Some m) # opts) = Stderr (m @ newline) # getopt_errors opts"
  by (simp_all add: getopt_errors_def)

section \<open>The control entry point\<close>

text \<open>
  A control call gets the argument vector, the plugin's static variables and the process's
  \<open>getopt\<close> state; it returns the code's return value, both states and the effects.
\<close>

type_synonym 's control_result = "fault + (int \<times> 's \<times> getopt_state \<times> effect list)"
type_synonym 's control = "string list \<Rightarrow> 's \<Rightarrow> getopt_state \<Rightarrow> 's control_result"

text \<open>The part of a result that does not mention the \<open>getopt\<close> state.\<close>

definition answer :: "'s control_result \<Rightarrow> fault + (int \<times> 's \<times> effect list)" where
  "answer r = (case r of Inl e \<Rightarrow> Inl e | Inr (rc, s, g, es) \<Rightarrow> Inr (rc, s, es))"

fun session ::
    "'s control \<Rightarrow> string list list \<Rightarrow> 's \<Rightarrow> getopt_state
       \<Rightarrow> fault + (int list \<times> 's \<times> getopt_state \<times> effect list)" where
  "session ctl [] s g = Inr ([], s, g, [])"
| "session ctl (a # as) s g =
     bind_res (ctl a s g) (\<lambda>(rc, s', g', es).
       bind_res (session ctl as s' g') (\<lambda>(rcs, s'', g'', fs).
         Inr (rc # rcs, s'', g'', es @ fs)))"

text \<open>Every plugin refuses a command that is not addressed to it and changes nothing.\<close>

locale plugin_control =
  fixes name :: string
    and ctl :: "'s control"
  assumes misdirected:
    "argv = [] \<or> hd argv \<noteq> name \<Longrightarrow> \<exists>es. ctl argv s g = Inr (-1, s, g, es)"
begin

lemma misdirected_session:
  "\<forall>a \<in> set as. a = [] \<or> hd a \<noteq> name \<Longrightarrow>
     \<exists>es. session ctl as s g = Inr (replicate (length as) (-1), s, g, es)"
proof (induction as)
  case (Cons a as)
  then obtain es fs where "ctl a s g = Inr (-1, s, g, es)"
      "session ctl as s g = Inr (replicate (length as) (-1), s, g, fs)"
    using misdirected [of a s g] by auto
  then show ?case by simp
qed simp

end

text \<open>
  A plugin that leaves \<open>getopt\<close> as a fresh scan needs it, and whose answer does not
  depend on which fresh state it found: then the commands of a session do not influence
  each other through the option scanner.
\<close>

locale option_hygiene = plugin_control +
  assumes leaves_fresh:
      "getopt_fresh g \<Longrightarrow> ctl argv s g = Inr (rc, s', g', es) \<Longrightarrow> getopt_fresh g'"
    and fresh_answer:
      "getopt_fresh g \<Longrightarrow> answer (ctl argv s g) = answer (ctl argv s getopt_start)"
begin

lemma session_fresh:
  "getopt_fresh g \<Longrightarrow> session ctl as s g = Inr (rcs, s', g', es) \<Longrightarrow> getopt_fresh g'"
proof (induction as arbitrary: s g rcs es)
  case (Cons a as)
  then obtain rc s1 g1 es1 rcs' fs where
    1: "ctl a s g = Inr (rc, s1, g1, es1)" and
    2: "session ctl as s1 g1 = Inr (rcs', s', g', fs)"
    by (auto simp: bind_res_eq_Inr)
  from leaves_fresh [OF Cons.prems(1) 1] 2 show ?case by (rule Cons.IH)
qed simp

lemma fresh_answer_eq:
  assumes "getopt_fresh g" "getopt_fresh h"
  shows "answer (ctl argv s g) = answer (ctl argv s h)"
  using fresh_answer [OF assms(1)] fresh_answer [OF assms(2)] by simp

text \<open>A session gives the same return codes, state and effects from any fresh state.\<close>

lemma session_answer:
  assumes "getopt_fresh g" "getopt_fresh h" "session ctl as s g = Inr (rcs, s', g', es)"
  shows "\<exists>h'. session ctl as s h = Inr (rcs, s', h', es)"
  using assms
proof (induction as arbitrary: s g h rcs es)
  case (Cons a as)
  then obtain rc s1 g1 es1 rcs' fs where
    1: "ctl a s g = Inr (rc, s1, g1, es1)" and
    2: "session ctl as s1 g1 = Inr (rcs', s', g', fs)" and
    eq: "rcs = rc # rcs'" "es = es1 @ fs"
    by (auto simp: bind_res_eq_Inr)
  have "answer (ctl a s h) = Inr (rc, s1, es1)"
    using fresh_answer_eq [OF Cons.prems(2,1), of a s] 1 by (simp add: answer_def)
  then obtain h1 where h1: "ctl a s h = Inr (rc, s1, h1, es1)"
    by (auto simp: answer_def split: sum.splits)
  from Cons.IH [OF leaves_fresh [OF Cons.prems(1) 1] leaves_fresh [OF Cons.prems(2) h1] 2]
  show ?case using h1 eq by auto
qed simp

end

end
