(* ===== verification/Pmem.thy ===== *)
theory Pmem
  imports Plugin_Api
begin

text \<open>
  \<open>host/pmem.cc\<close> and \<open>host/pmem.h\<close>: the plugin that prints a sample of the guest's
  memory accesses. State, the three operations (init, fini, the memory callback), the
  translation hook and the control entry point.
\<close>

section \<open>Data and state\<close>

definition HS_PMEM_READ :: u8 where "HS_PMEM_READ = 0x1"
definition HS_PMEM_WRITE :: u8 where "HS_PMEM_WRITE = 0x2"
definition HS_PMEM_KERNEL :: u8 where "HS_PMEM_KERNEL = 0x4"
definition HS_PMEM_USER :: u8 where "HS_PMEM_USER = 0x8"

lemmas pmem_bits = HS_PMEM_READ_def HS_PMEM_WRITE_def HS_PMEM_KERNEL_def HS_PMEM_USER_def

datatype pmem_mode = PMEM_ON | PMEM_OFF

record pmem_state =
  pmem_int :: u32
  pmem_attr :: u8
  pmem_file :: "out_file option"
  pmem_count :: u32
  pmem_mode :: pmem_mode

text \<open>Static storage starts as zeros; the first enumerator is the mode's zero.\<close>

definition pmem_initial :: pmem_state where
  "pmem_initial = \<lparr>pmem_int = 0, pmem_attr = 0, pmem_file = None, pmem_count = 0,
                   pmem_mode = PMEM_ON\<rparr>"

section \<open>Operations\<close>

text \<open>\<open>fopen_ok\<close> says which files the C library can open for writing.\<close>

definition hypercall_pmem_init ::
    "(string \<Rightarrow> bool) \<Rightarrow> string option \<Rightarrow> u32 \<Rightarrow> u8 \<Rightarrow> pmem_state \<Rightarrow> pmem_state \<times> effect list" where
  "hypercall_pmem_init fopen_ok filename hc_int hc_attr s =
     (s\<lparr>pmem_file := (case filename of
                        None \<Rightarrow> Some Std_Out
                      | Some n \<Rightarrow> if fopen_ok n then Some (Named n) else None),
        pmem_int := hc_int,
        pmem_attr := (if hc_attr \<noteq> 0 then hc_attr else 0xF),
        pmem_count := 0,
        pmem_mode := PMEM_ON\<rparr>,
      case filename of None \<Rightarrow> [] | Some n \<Rightarrow> [File_Open n])"

definition hypercall_pmem_fini :: "pmem_state \<Rightarrow> pmem_state \<times> effect list" where
  "hypercall_pmem_fini s =
     (case pmem_file s of
        Some f \<Rightarrow> (s\<lparr>pmem_file := None, pmem_mode := PMEM_OFF\<rparr>,
                   if f \<noteq> Std_Out then [File_Close f] else [])
      | None \<Rightarrow> (s\<lparr>pmem_mode := PMEM_OFF\<rparr>, []))"

definition access_attr :: "bool \<Rightarrow> bool \<Rightarrow> u8" where
  "access_attr is_store is_kernel =
     (if is_store then HS_PMEM_WRITE else HS_PMEM_READ) OR
     (if is_kernel then HS_PMEM_KERNEL else HS_PMEM_USER)"

definition pmem_line :: "u32 \<Rightarrow> qemu_view \<Rightarrow> u64 \<Rightarrow> string" where
  "pmem_line cpu q vaddr =
     show_u (unat cpu) @ '' '' @ (if q_in_kernel q then ''k'' else ''u'') @ '' '' @
     (if q_is_store q then ''w'' else ''r'') @ '' 0x'' @ show_0x 16 (unat vaddr) @
     '' 0x'' @ show_0x 8 (unat (q_paddr q)) @ newline"

definition hypercall_pmem_cb ::
    "u32 \<Rightarrow> qemu_view \<Rightarrow> u64 \<Rightarrow> pmem_state \<Rightarrow> fault + (pmem_state \<times> effect list)" where
  "hypercall_pmem_cb cpu q vaddr s =
     (if pmem_mode s = PMEM_OFF then Inr (s, [])
      else if pmem_int s = 0 then Inl Div_By_Zero
      else
        let sampled = pmem_count s mod pmem_int s = 0;
            s' = s\<lparr>pmem_count := pmem_count s + 1\<rparr>
        in if sampled then
             let attr = access_attr (q_is_store q) (q_in_kernel q)
             in if pmem_attr s AND attr = attr then
                  (case pmem_file s of
                     None \<Rightarrow> Inl Null_Deref
                   | Some f \<Rightarrow> Inr (s', [fputs f (pmem_line cpu q vaddr)]))
                else Inr (s', [])
           else Inr (s', []))"

definition pmem_vcpu_mem ::
    "u32 \<Rightarrow> qemu_view \<Rightarrow> u64 \<Rightarrow> pmem_state \<Rightarrow> fault + (pmem_state \<times> effect list)" where
  "pmem_vcpu_mem cpu q vaddr s = hypercall_pmem_cb cpu q vaddr s"

text \<open>
  The translation hook: one memory callback on every instruction of the block; the list
  holds the instruction indices in registration order.
\<close>

definition pmem_vcpu_tb_trans :: "nat \<Rightarrow> nat list" where
  "pmem_vcpu_tb_trans n_insns = [0..<n_insns]"

section \<open>Control\<close>

record pmem_opts =
  po_interval :: u32
  po_attr :: u32
  po_filename :: "string option"

definition pmem_defaults :: pmem_opts where
  "pmem_defaults = \<lparr>po_interval = 10000, po_attr = 0, po_filename = None\<rparr>"

definition pmem_option :: "opt \<Rightarrow> pmem_opts \<Rightarrow> pmem_opts" where
  "pmem_option r po =
     (let (c, optarg, _) = r in
      if c = CHR ''k'' then po\<lparr>po_attr := po_attr po OR ucast HS_PMEM_KERNEL\<rparr>
      else if c = CHR ''u'' then po\<lparr>po_attr := po_attr po OR ucast HS_PMEM_USER\<rparr>
      else if c = CHR ''r'' then po\<lparr>po_attr := po_attr po OR ucast HS_PMEM_READ\<rparr>
      else if c = CHR ''w'' then po\<lparr>po_attr := po_attr po OR ucast HS_PMEM_WRITE\<rparr>
      else if c = CHR ''f'' then po\<lparr>po_filename := optarg\<rparr>
      else if c = CHR ''i'' then
        po\<lparr>po_interval := word_of_int (strtol (case optarg of Some a \<Rightarrow> a | None \<Rightarrow> []))\<rparr>
      else po)"

definition pmem_control :: "(string \<Rightarrow> bool) \<Rightarrow> pmem_state control" where
  "pmem_control fopen_ok argv s g =
     (let echo = echo_argv ''pmem control'' argv in
      if argv = [] \<or> hd argv \<noteq> ''pmem'' then
        Inr (-1, s, g, echo @ [Stderr (''Misdirected control for '' @ argv0_text argv @ newline)])
      else
        let argv1 = tl argv in
        if argv1 = [] \<or> hd argv1 = ''start'' then
          bind_res (getopt_loop ''f:i:kurw'' g argv1) (\<lambda>(opts, g', _).
            let po = fold pmem_option opts pmem_defaults;
                (s', es) = hypercall_pmem_init fopen_ok (po_filename po) (po_interval po)
                             (ucast (po_attr po)) s
            in Inr (0, s', g'\<lparr>optind := 0\<rparr>,
                    echo @ getopt_errors opts @ [Stderr (''pmem_mode: '' @ show_x (unat (po_attr po)) @ newline)] @
                    es @ [Register On_Tb_Trans, Tb_Flush]))
        else if hd argv1 = ''stop'' then
          let (s', es) = hypercall_pmem_fini s in Inr (0, s', g, echo @ es @ [Plugin_Reset])
        else Inr (-1, s, g, echo))"

definition pmem_install :: "u64 \<Rightarrow> string list \<Rightarrow> int \<times> effect list" where
  "pmem_install pid argv =
     (0, Stdout (''pmem installed with id '' @ show_u (unat pid) @ newline) #
         map (\<lambda>a. Stdout (a @ newline)) argv)"

interpretation pmem: option_hygiene "''pmem''" "pmem_control fopen_ok"
proof
  fix argv s g
  show "argv = [] \<or> hd argv \<noteq> ''pmem'' \<Longrightarrow> \<exists>es. pmem_control fopen_ok argv s g = Inr (-1, s, g, es)"
    by (auto simp: pmem_control_def Let_def)
next
  fix g argv s rc s' g' es
  assume "getopt_fresh g" "pmem_control fopen_ok argv s g = Inr (rc, s', g', es)"
  then show "getopt_fresh g'"
    by (auto simp: pmem_control_def Let_def split_beta bind_res_eq_Inr getopt_fresh_def
        split: if_splits)
next
  fix g argv s
  assume g: "getopt_fresh g"
  show "answer (pmem_control fopen_ok argv s g) = answer (pmem_control fopen_ok argv s getopt_start)"
  proof (cases "argv = [] \<or> hd argv \<noteq> ''pmem'' \<or> (tl argv \<noteq> [] \<and> hd (tl argv) \<noteq> ''start'')")
    case True
    then show ?thesis by (auto simp: pmem_control_def Let_def answer_def split_beta)
  next
    case False
    show ?thesis
    proof (cases "tl argv = []")
      case True
      then show ?thesis
        by (simp add: pmem_control_def Let_def answer_def split_beta getopt_loop.simps getopt_def)
    next
      case False
      then show ?thesis using getopt_loop_fresh [OF g, of "tl argv" "''f:i:kurw''"]
        by (simp add: pmem_control_def Let_def answer_def bind_res_def split_beta split: sum.split)
    qed
  qed
qed

section \<open>The access filter\<close>

text \<open>The class bit an option character stands for, and the bits of a whole command line.\<close>

definition option_bit :: "char \<Rightarrow> u32" where
  "option_bit c =
     (if c = CHR ''r'' then 0x1 else if c = CHR ''w'' then 0x2
      else if c = CHR ''k'' then 0x4 else if c = CHR ''u'' then 0x8 else 0)"

lemma po_attr_option: "po_attr (pmem_option r po) = po_attr po OR option_bit (fst r)"
  by (cases r) (auto simp: pmem_option_def option_bit_def pmem_bits)

lemma bit_po_attr_fold:
  "bit (po_attr (fold pmem_option opts po)) n \<longleftrightarrow>
     bit (po_attr po) n \<or> (\<exists>r \<in> set opts. bit (option_bit (fst r)) n)"
  by (induction opts arbitrary: po) (auto simp: po_attr_option bit_or_iff)

lemma bit_option_bit:
  "n < 4 \<Longrightarrow> bit (option_bit c) n \<longleftrightarrow> c = ''rwku'' ! n"
  "4 \<le> n \<Longrightarrow> \<not> bit (option_bit c) n"
proof -
  show "bit (option_bit c) n \<longleftrightarrow> c = ''rwku'' ! n" if "n < 4"
  proof -
    from that have "n = 0 \<or> n = 1 \<or> n = 2 \<or> n = 3" by arith
    then show ?thesis by (elim disjE) (auto simp: option_bit_def numeral_eq_Suc bit_simps)
  qed
  show "\<not> bit (option_bit c) n" if "4 \<le> n"
  proof -
    have "take_bit 4 (option_bit c) = option_bit c"
      by (simp add: option_bit_def)
    then have "bit (option_bit c) n = bit (take_bit 4 (option_bit c)) n" by simp
    with that show ?thesis by (simp add: bit_take_bit_iff)
  qed
qed

lemma bit_cmdline_attr:
  "bit (ucast (po_attr (fold pmem_option opts pmem_defaults)) :: u8) n \<longleftrightarrow>
     n < 4 \<and> ''rwku'' ! n \<in> fst ` set opts"
proof (cases "n < 4")
  case True
  then have "(\<exists>r \<in> set opts. bit (option_bit (fst r)) n) \<longleftrightarrow> ''rwku'' ! n \<in> fst ` set opts"
    by (metis (no_types, lifting) bit_option_bit(1) image_iff)
  with True show ?thesis
    by (simp add: bit_word_ucast_iff bit_po_attr_fold pmem_defaults_def)
next
  case False
  then show ?thesis
    by (simp add: bit_word_ucast_iff bit_po_attr_fold pmem_defaults_def bit_option_bit)
qed

lemma and_eq_iff_bits: "a AND m = (m :: u8) \<longleftrightarrow> (\<forall>n < 8. bit m n \<longrightarrow> bit a n)"
  by (auto simp: bit_eq_iff bit_simps)

lemma word8_zero_iff: "(w :: u8) = 0 \<longleftrightarrow> (\<forall>n. \<not> bit w n)"
  by (auto intro: bit_word_eqI)

lemma access_attr_bits:
  "a AND access_attr st k = access_attr st k \<longleftrightarrow>
     bit a (if st then 1 else 0) \<and> bit a (if k then 2 else 3)"
  by (cases st; cases k)
     (auto simp: and_eq_iff_bits access_attr_def pmem_bits numeral_eq_Suc All_less_Suc bit_simps)

section \<open>Sampling\<close>

type_synonym access = "u32 \<times> qemu_view \<times> u64"

fun pmem_accesses :: "access list \<Rightarrow> pmem_state \<Rightarrow> fault + (pmem_state \<times> effect list)" where
  "pmem_accesses [] s = Inr (s, [])"
| "pmem_accesses ((cpu, q, vaddr) # xs) s =
     bind_res (pmem_vcpu_mem cpu q vaddr s) (\<lambda>(s', es).
       bind_res (pmem_accesses xs s') (\<lambda>(s'', fs). Inr (s'', es @ fs)))"

text \<open>The specification: the accesses whose number is a multiple of the interval and whose class
  is enabled, in order.\<close>

definition pmem_selected :: "nat \<Rightarrow> u8 \<Rightarrow> nat \<times> access \<Rightarrow> bool" where
  "pmem_selected k a = (\<lambda>(i, cpu, q, vaddr).
     i mod k = 0 \<and> a AND access_attr (q_is_store q) (q_in_kernel q) =
                       access_attr (q_is_store q) (q_in_kernel q))"

definition access_line :: "access \<Rightarrow> string" where
  "access_line = (\<lambda>(cpu, q, vaddr). pmem_line cpu q vaddr)"

lemma pmem_accesses_from:
  assumes "pmem_mode s = PMEM_ON" "pmem_file s = Some f" "pmem_count s = of_nat n"
    "0 < pmem_int s" "n + length xs \<le> 2 ^ 32"
  shows "pmem_accesses xs s =
    Inr (s\<lparr>pmem_count := of_nat (n + length xs)\<rparr>,
         map (\<lambda>(i, x). fputs f (access_line x))
             (filter (pmem_selected (unat (pmem_int s)) (pmem_attr s)) (enumerate n xs)))"
  using assms
proof (induction xs arbitrary: n s)
  case Nil
  then show ?case by simp
next
  case (Cons x xs)
  obtain cpu q vaddr where x: "x = (cpu, q, vaddr)" by (cases x)
  have "unat (of_nat n :: u32) = n" using Cons.prems(5) by (simp add: unat_of_nat)
  then have m: "(of_nat n mod pmem_int s = (0 :: u32)) \<longleftrightarrow> n mod unat (pmem_int s) = 0"
    by (simp add: unat_mod flip: unat_eq_zero)
  have step: "pmem_vcpu_mem cpu q vaddr s =
      Inr (s\<lparr>pmem_count := of_nat (Suc n)\<rparr>,
           if pmem_selected (unat (pmem_int s)) (pmem_attr s) (n, x)
           then [fputs f (access_line x)] else [])"
    using Cons.prems m
    by (auto simp: pmem_vcpu_mem_def hypercall_pmem_cb_def pmem_selected_def access_line_def x Let_def)
  have "pmem_accesses xs (s\<lparr>pmem_count := of_nat (Suc n)\<rparr>) =
    Inr (s\<lparr>pmem_count := of_nat (Suc n + length xs)\<rparr>,
         map (\<lambda>(i, x). fputs f (access_line x))
             (filter (pmem_selected (unat (pmem_int s)) (pmem_attr s)) (enumerate (Suc n) xs)))"
    using Cons.IH [of "s\<lparr>pmem_count := of_nat (Suc n)\<rparr>" "Suc n"] Cons.prems by simp
  then show ?case using step by (simp add: x)
qed

text \<open>C17: Sampling is exact: after \<open>start\<close> with a non-zero interval and a file that opens,
  the plugin prints, for any sequence of up to \<open>2^32\<close> accesses, exactly those whose number
  (from 0) is a multiple of the interval and whose class is enabled, in order, and never
  faults.\<close>

theorem pmem_sampling:
  assumes "0 < iv" "\<forall>n. fn = Some n \<longrightarrow> fopen_ok n" "length xs \<le> 2 ^ 32"
  shows "\<exists>s'. pmem_accesses xs (fst (hypercall_pmem_init fopen_ok fn iv a s)) =
    Inr (s', map (\<lambda>(i, x). fputs (case fn of None \<Rightarrow> Std_Out | Some n \<Rightarrow> Named n) (access_line x))
               (filter (pmem_selected (unat iv) (if a = 0 then 0xF else a)) (enumerate 0 xs)))"
proof -
  let ?s = "fst (hypercall_pmem_init fopen_ok fn iv a s)"
  have "pmem_mode ?s = PMEM_ON" "pmem_count ?s = of_nat 0" "pmem_int ?s = iv"
    "pmem_attr ?s = (if a = 0 then 0xF else a)"
    "pmem_file ?s = Some (case fn of None \<Rightarrow> Std_Out | Some n \<Rightarrow> Named n)"
    using assms(2) by (auto simp: hypercall_pmem_init_def split: option.splits)
  with pmem_accesses_from [of ?s _ 0 xs] assms(1,3) show ?thesis by auto
qed

definition demo_view :: "bool \<Rightarrow> bool \<Rightarrow> u64 \<Rightarrow> qemu_view" where
  "demo_view k st pa = \<lparr>q_in_kernel = k, q_page_directory = 0x1000, q_is_store = st, q_paddr = pa,
                        q_is_io = False\<rparr>"

theorem pmem_sampling_witness:
  "\<exists>s'. pmem_accesses [(0, demo_view False True 1, 2), (0, demo_view False True 1, 2),
                      (0, demo_view True False 1, 2)]
          (fst (hypercall_pmem_init (\<lambda>_. True) None 2 0 pmem_initial)) =
     Inr (s', [Stdout (pmem_line 0 (demo_view False True 1) 2),
               Stdout (pmem_line 0 (demo_view True False 1) 2)])"
  using pmem_sampling [of 2 None "\<lambda>_. True" "[(0, demo_view False True 1, 2),
      (0, demo_view False True 1, 2), (0, demo_view True False 1, 2)]" 0 pmem_initial]
  by (simp add: pmem_selected_def demo_view_def access_attr_def pmem_bits access_line_def fputs_def)

lemma pmem_start_flags:
  assumes "getopt_fresh g" "set cs \<subseteq> set ''rwku''"
  shows "\<exists>g' argv'. getopt_loop ''f:i:kurw'' g (''start'' # map (\<lambda>c. [CHR ''-'', c]) cs) =
    Inr (map (\<lambda>c. (c, None, None)) cs, g', argv')"
proof -
  have "\<forall>c \<in> set cs. opt_kind ''f:i:kurw'' c = Some Flag \<and> c \<noteq> CHR ''-''"
    using assms(2) by (auto simp: opt_kind_def)
  from getopt_loop_flags [OF this, of "[''start'']" "getopt_init getopt_start"] show ?thesis
    by (subst getopt_loop_fresh [OF assms(1)], simp, subst getopt_loop_init, simp)
       (auto simp: getopt_init_def getopt_start_def)
qed

lemma pmem_flags_interval: "set cs \<subseteq> set ''rwku'' \<Longrightarrow>
    po_interval (fold pmem_option (map (\<lambda>c. (c, None, None)) cs) po) = po_interval po \<and>
    po_filename (fold pmem_option (map (\<lambda>c. (c, None, None)) cs) po) = po_filename po"
  by (induction cs arbitrary: po) (auto simp: pmem_option_def)

text \<open>C28: Which accesses \<open>pmem\<close> prints: after \<open>pmem start\<close> with any of the flags \<open>-r\<close>, \<open>-w\<close>,
  \<open>-k\<close> and \<open>-u\<close>, from any state and a fresh \<open>getopt\<close>, any sequence of up to \<open>2^32\<close>
  accesses prints, in order, every 10000th access if no flag was given, and otherwise those of them whose direction
  and whose privilege were both given as flags. So a single flag, such as \<open>-k\<close>, prints nothing at all.\<close>

theorem pmem_filter_options:
  assumes "getopt_fresh g" "set cs \<subseteq> set ''rwku''" "length xs \<le> 2 ^ 32"
  shows "\<exists>s' g' es s''. pmem_control fopen_ok (''pmem'' # ''start'' # map (\<lambda>c. [CHR ''-'', c]) cs) s g =
      Inr (0, s', g', es) \<and>
    pmem_accesses xs s' = Inr (s'', map (\<lambda>(i, cpu, q, vaddr). Stdout (pmem_line cpu q vaddr))
      (filter (\<lambda>(i, cpu, q, vaddr). i mod 10000 = 0 \<and>
         (cs = [] \<or> (if q_is_store q then CHR ''w'' else CHR ''r'') \<in> set cs \<and>
                     (if q_in_kernel q then CHR ''k'' else CHR ''u'') \<in> set cs))
       (enumerate 0 xs)))"
proof -
  let ?opts = "map (\<lambda>c. (c, None :: string option, None :: string option)) cs"
  let ?a = "ucast (po_attr (fold pmem_option ?opts pmem_defaults)) :: u8"
  from pmem_start_flags [OF assms(1,2)] obtain g' argv' where
    g': "getopt_loop ''f:i:kurw'' g (''start'' # map (\<lambda>c. [CHR ''-'', c]) cs) = Inr (?opts, g', argv')" by blast
  have fst: "fst ` set ?opts = set cs" by (auto simp: image_image)
  have bits: "bit ?a n \<longleftrightarrow> n < 4 \<and> ''rwku'' ! n \<in> set cs" for n
    unfolding bit_cmdline_attr fst ..
  have zero: "?a = 0 \<longleftrightarrow> cs = []"
  proof -
    have "?a = 0 \<longleftrightarrow> (\<forall>n < 4. ''rwku'' ! n \<notin> set cs)" by (auto simp: word8_zero_iff bits)
    also have "\<dots> \<longleftrightarrow> set cs \<inter> set ''rwku'' = {}"
      by (simp add: numeral_eq_Suc All_less_Suc) blast
    also have "\<dots> \<longleftrightarrow> cs = []" using assms(2) by (metis inf.absorb1 set_empty)
    finally show ?thesis .
  qed
  define s' where "s' = fst (hypercall_pmem_init fopen_ok None 10000 ?a s)"
  have s': "pmem_mode s' = PMEM_ON" "pmem_file s' = Some Std_Out" "pmem_count s' = of_nat 0" "pmem_int s' = 10000"
    "pmem_attr s' = (if ?a = 0 then 0xF else ?a)"
    by (simp_all add: s'_def hypercall_pmem_init_def)
  have all: "0xF AND access_attr st k = access_attr st k" for st k
    by (auto simp: access_attr_bits bit_simps numeral_eq_Suc)
  have mask: "pmem_attr s' AND access_attr st k = access_attr st k \<longleftrightarrow>
      cs = [] \<or> (if st then CHR ''w'' else CHR ''r'') \<in> set cs \<and> (if k then CHR ''k'' else CHR ''u'') \<in> set cs" for st k
  proof (cases "cs = []")
    case True
    then show ?thesis using zero all by (simp add: s'(5))
  next
    case False
    then have "pmem_attr s' = ?a" using zero by (simp only: s'(5) if_False)
    with False show ?thesis by (auto simp only: access_attr_bits bits) (auto split: if_splits)
  qed
  have eq: "pmem_selected (unat (pmem_int s')) (pmem_attr s') = (\<lambda>(i, cpu, q, vaddr). i mod 10000 = 0 \<and>
      (cs = [] \<or> (if q_is_store q then CHR ''w'' else CHR ''r'') \<in> set cs \<and>
                  (if q_in_kernel q then CHR ''k'' else CHR ''u'') \<in> set cs))"
    unfolding pmem_selected_def mask by (simp add: s'(4))
  have line: "(\<lambda>(i, x). fputs Std_Out (access_line x)) = (\<lambda>(i :: nat, cpu, q, vaddr). Stdout (pmem_line cpu q vaddr))"
    by (auto simp: fun_eq_iff fputs_def access_line_def)
  have acc: "\<exists>s''. pmem_accesses xs s' = Inr (s'', map (\<lambda>(i, cpu, q, vaddr). Stdout (pmem_line cpu q vaddr))
      (filter (\<lambda>(i, cpu, q, vaddr). i mod 10000 = 0 \<and>
         (cs = [] \<or> (if q_is_store q then CHR ''w'' else CHR ''r'') \<in> set cs \<and>
                     (if q_in_kernel q then CHR ''k'' else CHR ''u'') \<in> set cs))
       (enumerate 0 xs)))"
    using pmem_accesses_from [OF s'(1-3), of xs] assms(3) unfolding eq line by (simp add: s'(4))
  have "po_interval (fold pmem_option ?opts pmem_defaults) = 10000" "po_filename (fold pmem_option ?opts pmem_defaults) = None"
    using pmem_flags_interval [OF assms(2), of pmem_defaults] by (simp_all add: pmem_defaults_def)
  then have "\<exists>g' es. pmem_control fopen_ok (''pmem'' # ''start'' # map (\<lambda>c. [CHR ''-'', c]) cs) s g = Inr (0, s', g', es)"
    using g' by (simp add: pmem_control_def s'_def split_beta Let_def)
  with acc show ?thesis by blast
qed


theorem pmem_filter_options_witness:
  "(\<exists>s' g' es s''. pmem_control (\<lambda>_. True) [''pmem'', ''start'', ''-k'', ''-w''] pmem_initial getopt_start = Inr (0, s', g', es) \<and>
      pmem_accesses [(0, demo_view True True 1, 2)] s' = Inr (s'', [Stdout (pmem_line 0 (demo_view True True 1) 2)])) \<and>
   (\<exists>s' g' es s''. pmem_control (\<lambda>_. True) [''pmem'', ''start'', ''-k''] pmem_initial getopt_start = Inr (0, s', g', es) \<and>
      pmem_accesses [(0, demo_view True True 1, 2)] s' = Inr (s'', []))"
  using pmem_filter_options [OF getopt_fresh_start, of "''kw''" "[(0, demo_view True True 1, 2)]" "\<lambda>_. True" pmem_initial]
    pmem_filter_options [OF getopt_fresh_start, of "''k''" "[(0, demo_view True True 1, 2)]" "\<lambda>_. True" pmem_initial]
  by (simp add: demo_view_def)

lemma pmem_start_interval:
  assumes "getopt_fresh g"
  shows "getopt_loop ''f:i:kurw'' g [''start'', ''-i'', v] =
    Inr ([(CHR ''i'', Some v, None)], \<lparr>optind = 3, nextchar = [], first_nonopt = 3, last_nonopt = 3,
          initialized = True\<rparr>, [''start'', ''-i'', v])"
  by (subst getopt_loop_fresh [OF assms]) (simp_all add: getopt_eval getopt_start_def)

text \<open>C29: The interval is not checked: when \<open>strtol\<close> reads the argument of \<open>-i\<close> as 0 (or as a
  multiple of \<open>2^32\<close>) the control call still succeeds, and the first access then divides by
  zero.\<close>

theorem pmem_zero_interval:
  assumes "getopt_fresh g" "word_of_int (strtol v) = (0 :: u32)"
  shows "\<exists>s' g' es. pmem_control fopen_ok [''pmem'', ''start'', ''-i'', v] s g = Inr (0, s', g', es) \<and>
           pmem_accesses ((cpu, q, vaddr) # xs) s' = Inl Div_By_Zero"
  using assms
  by (simp add: pmem_control_def pmem_start_interval pmem_option_def pmem_defaults_def
      hypercall_pmem_init_def pmem_vcpu_mem_def hypercall_pmem_cb_def)

theorem pmem_zero_interval_witness:
  "\<exists>s' g' es. pmem_control (\<lambda>_. True) [''pmem'', ''start'', ''-i'', ''0''] pmem_initial getopt_start =
       Inr (0, s', g', es) \<and>
     pmem_accesses [(0, demo_view False True 1, 2)] s' = Inl Div_By_Zero"
proof -
  have "word_of_int (strtol ''0'') = (0 :: u32)" by code_simp
  then show ?thesis by (rule pmem_zero_interval [OF getopt_fresh_start])
qed

text \<open>C30: \<open>stop\<close> ends the report: it always succeeds, closes the report file if one was opened,
  asks QEMU to remove the instrumentation, and callbacks that still arrive print nothing and
  do not fault.\<close>

theorem pmem_stop_silent:
  "\<exists>s' es. pmem_control fopen_ok [''pmem'', ''stop''] s g = Inr (0, s', g, es) \<and>
     pmem_file s' = None \<and> pmem_accesses xs s' = Inr (s', []) \<and> last es = Plugin_Reset \<and>
     (\<forall>n. pmem_file s = Some (Named n) \<longrightarrow> File_Close (Named n) \<in> set es)"
proof -
  have off: "pmem_mode t = PMEM_OFF \<Longrightarrow> pmem_accesses xs t = Inr (t, [])" for t
    by (induction xs) (auto simp: pmem_vcpu_mem_def hypercall_pmem_cb_def)
  show ?thesis
    by (cases "pmem_file s") (auto simp: pmem_control_def hypercall_pmem_fini_def off)
qed

theorem pmem_stop_silent_witness:
  "\<exists>s' es. pmem_control (\<lambda>_. True) [''pmem'', ''stop''] (pmem_initial\<lparr>pmem_file := Some (Named ''o'')\<rparr>)
        getopt_start = Inr (0, s', getopt_start, es) \<and> File_Close (Named ''o'') \<in> set es"
  using pmem_stop_silent [of "\<lambda>_. True" "pmem_initial\<lparr>pmem_file := Some (Named ''o'')\<rparr>" getopt_start "[]"]
  by auto

end
