(* ===== verification/Mcount.thy ===== *)
theory Mcount
  imports Plugin_Api "HOL-Library.List_Lexorder" "HOL-Library.Char_ord"
begin

text \<open>
  \<open>host/mcount.cc\<close>: the plugin that counts memory accesses per vcpu and memory bin,
  separately for kernel and user mode, and reports the counters every \<open>acc_bin\<close> accesses.
\<close>

section \<open>State\<close>

datatype mcount_mode = MCOUNT_ON | MCOUNT_OFF

record mcount_config =
  mc_mode :: mcount_mode
  mc_report :: "out_file option"
  mem_bin :: u32
  acc_bin :: u32
  total_mem :: u64

text \<open>A \<open>std::map<std::string, uint64_t>\<close>: an association list sorted by its keys.\<close>

type_synonym tag_map = "(string \<times> u64) list"

record mcount_state =
  cfg :: mcount_config
  kmaps :: "u32 list list"
  umaps :: "u32 list list"
  tags :: tag_map
  acc_cnt :: u64
  acc_io_cnt :: u64
  ncores :: u32

definition mcount_initial :: mcount_state where
  "mcount_initial =
     \<lparr>cfg = \<lparr>mc_mode = MCOUNT_OFF, mc_report = None, mem_bin = 0, acc_bin = 0, total_mem = 0\<rparr>,
      kmaps = [], umaps = [], tags = [], acc_cnt = 0, acc_io_cnt = 0, ncores = 0\<rparr>"

fun tag_assign :: "string \<Rightarrow> u64 \<Rightarrow> tag_map \<Rightarrow> tag_map" where
  "tag_assign k v [] = [(k, v)]"
| "tag_assign k v ((k', v') # m) =
     (if k < k' then (k, v) # (k', v') # m
      else if k = k' then (k, v) # m
      else (k', v') # tag_assign k v m)"

section \<open>Operations\<close>

definition cfg_line :: "string option \<Rightarrow> mcount_config \<Rightarrow> u32 \<Rightarrow> string" where
  "cfg_line rep c nc =
     ''cfg = {\"report\": '' @ (case rep of None \<Rightarrow> ''stdout'' | Some n \<Rightarrow> n) @
     '', \"total_mem\": '' @ show_u (unat (total_mem c)) @ '', \"mem_bin\": '' @
     show_u (unat (mem_bin c)) @ '', \"acc_bin\": '' @ show_u (unat (acc_bin c)) @
     '', \"ncores\": '' @ show_u (unat nc) @ ''}'' @ newline"

text \<open>\<open>resize\<close> and \<open>fill\<close> of every row; the row length divides by \<open>mem_bin\<close>.\<close>

definition clear_maps :: "u32 \<Rightarrow> u64 \<Rightarrow> u32 \<Rightarrow> u32 list list \<Rightarrow> fault + u32 list list" where
  "clear_maps nc ram bin maps =
     (let rows = vec_resize (unat nc) [] maps in
      if rows \<noteq> [] \<and> bin = 0 then Inl Div_By_Zero
      else Inr (map (\<lambda>row. replicate (unat (ram div ucast bin)) 0) rows))"

definition hypercall_mcount_init ::
    "(string \<Rightarrow> bool) \<Rightarrow> string option \<Rightarrow> u64 \<Rightarrow> u32 \<Rightarrow> u32 \<Rightarrow> mcount_state
       \<Rightarrow> fault + (mcount_state \<times> effect list)" where
  "hypercall_mcount_init fopen_ok rep ram mbin abin s =
     (let c = \<lparr>mc_mode = MCOUNT_ON,
              mc_report = (case rep of
                             None \<Rightarrow> Some Std_Out
                           | Some n \<Rightarrow> if fopen_ok n then Some (Named n) else None),
              mem_bin = mbin, acc_bin = abin, total_mem = ram\<rparr>
      in case mc_report c of
           None \<Rightarrow> Inl Null_Deref
         | Some f \<Rightarrow>
             bind_res (clear_maps (ncores s) ram mbin (kmaps s)) (\<lambda>k.
             bind_res (clear_maps (ncores s) ram mbin (umaps s)) (\<lambda>u.
               Inr (s\<lparr>cfg := c, kmaps := k, umaps := u, tags := [], acc_cnt := 0, acc_io_cnt := 0\<rparr>,
                    (case rep of None \<Rightarrow> [] | Some n \<Rightarrow> [File_Open n]) @
                    [fputs f (cfg_line rep c (ncores s))]))))"

definition tag_text :: "string \<times> u64 \<Rightarrow> string" where
  "tag_text t = ''\"'' @ fst t @ ''\": '' @ show_u (unat (snd t)) @ '', ''"

definition hypercall_mcount_fini :: "mcount_state \<Rightarrow> mcount_state \<times> effect list" where
  "hypercall_mcount_fini s =
     (let off = (cfg s)\<lparr>mc_mode := MCOUNT_OFF\<rparr> in
      case mc_report (cfg s) of
        None \<Rightarrow> (s\<lparr>cfg := off\<rparr>, [])
      | Some f \<Rightarrow>
          (s\<lparr>cfg := off\<lparr>mc_report := None\<rparr>\<rparr>,
           [fputs f ''tags = {''] @ map (\<lambda>t. fputs f (tag_text t)) (tags s) @
           [fputs f (''}'' @ newline),
            fputs f (''acc_cnt = '' @ show_u (unat (acc_cnt s)) @ ''; acc_io_cnt = '' @
                     show_u (unat (acc_io_cnt s)) @ newline)] @
           (if f \<noteq> Std_Out then [File_Close f] else [])))"

text \<open>\<open>flush\<close> prints the non-zero counters of every core's row and clears the row.\<close>

definition row_text :: "u32 list \<Rightarrow> string" where
  "row_text row =
     concat (map (\<lambda>j. if row ! j \<noteq> 0 then show_u j @ '': '' @ show_u (unat (row ! j)) @ '', '' else [])
                 [0..<length row])"

definition core_text :: "nat \<Rightarrow> u32 list \<Rightarrow> string" where
  "core_text i row = show_d (int i) @ '' = {'' @ row_text row @ ''}, ''"

fun flush_rows :: "nat list \<Rightarrow> u32 list list \<Rightarrow> fault + (u32 list list \<times> string)" where
  "flush_rows [] maps = Inr (maps, [])"
| "flush_rows (i # is) maps =
     bind_res (vec_at maps i) (\<lambda>row.
       bind_res (flush_rows is (maps[i := map (\<lambda>_. 0) row])) (\<lambda>(maps', text).
         Inr (maps', core_text i row @ text)))"

definition mcount_flush :: "u32 \<Rightarrow> u32 list list \<Rightarrow> fault + (u32 list list \<times> string)" where
  "mcount_flush nc maps = flush_rows [0..<unat nc] maps"

text \<open>\<open>maps[cpu][paddr / mem_bin] ++\<close>\<close>

definition bump :: "nat \<Rightarrow> u64 \<Rightarrow> u32 \<Rightarrow> u32 list list \<Rightarrow> fault + u32 list list" where
  "bump cpu paddr mbin maps =
     bind_res (vec_at maps cpu) (\<lambda>row.
       if mbin = 0 then Inl Div_By_Zero
       else let b = unat (paddr div ucast mbin)
            in bind_res (vec_at row b) (\<lambda>c. Inr (maps[cpu := row[b := c + 1]])))"

text \<open>The report that one access in \<open>acc_bin\<close> writes; the mode is checked again under the lock.\<close>

definition mcount_report :: "mcount_state \<Rightarrow> fault + (mcount_state \<times> effect list)" where
  "mcount_report s =
     (case mc_report (cfg s) of
        None \<Rightarrow> Inl Null_Deref
      | Some f \<Rightarrow>
          bind_res (mcount_flush (ncores s) (kmaps s)) (\<lambda>(k, ktext).
          bind_res (mcount_flush (ncores s) (umaps s)) (\<lambda>(u, utext).
            Inr (s\<lparr>kmaps := k, umaps := u\<rparr>,
                 [fputs f (''K = {'' @ ktext @ ''}; U = {'' @ utext @ ''}'' @ newline)]))))"

definition mcount_count :: "nat \<Rightarrow> qemu_view \<Rightarrow> mcount_state \<Rightarrow> fault + mcount_state" where
  "mcount_count cpu q s =
     (if q_is_io q then Inr (s\<lparr>acc_io_cnt := acc_io_cnt s + 1\<rparr>)
      else if q_in_kernel q then
        bind_res (bump cpu (q_paddr q) (mem_bin (cfg s)) (kmaps s)) (\<lambda>k. Inr (s\<lparr>kmaps := k\<rparr>))
      else
        bind_res (bump cpu (q_paddr q) (mem_bin (cfg s)) (umaps s)) (\<lambda>u. Inr (s\<lparr>umaps := u\<rparr>)))"

definition hypercall_mcount_cb ::
    "nat \<Rightarrow> qemu_view \<Rightarrow> mcount_state \<Rightarrow> fault + (mcount_state \<times> effect list)" where
  "hypercall_mcount_cb cpu q s =
     (if mc_mode (cfg s) = MCOUNT_OFF then Inr (s, [])
      else
        let s1 = s\<lparr>acc_cnt := acc_cnt s + 1\<rparr> in
        if acc_bin (cfg s) = 0 then Inl Div_By_Zero
        else
          bind_res (if acc_cnt s1 mod ucast (acc_bin (cfg s)) = 0 then mcount_report s1
                    else Inr (s1, [])) (\<lambda>(s2, es).
          bind_res (mcount_count cpu q s2) (\<lambda>s3. Inr (s3, es))))"

definition mcount_vcpu_mem ::
    "nat \<Rightarrow> qemu_view \<Rightarrow> mcount_state \<Rightarrow> fault + (mcount_state \<times> effect list)" where
  "mcount_vcpu_mem cpu q s = hypercall_mcount_cb cpu q s"

definition mcount_vcpu_tb_trans :: "nat \<Rightarrow> nat list" where
  "mcount_vcpu_tb_trans n_insns = [0..<n_insns]"

definition hypercall_mcount_tag :: "string \<Rightarrow> mcount_state \<Rightarrow> mcount_state" where
  "hypercall_mcount_tag t s = s\<lparr>tags := tag_assign t (acc_cnt s) (tags s)\<rparr>"

section \<open>Control\<close>

record mcount_opts =
  mo_mem_bin :: u32
  mo_acc_bin :: u32
  mo_filename :: "string option"
  mo_tag :: "string option"

definition mcount_defaults :: mcount_opts where
  "mcount_defaults = \<lparr>mo_mem_bin = push_bit 20 16, mo_acc_bin = 100, mo_filename = None, mo_tag = None\<rparr>"

definition mcount_option :: "opt \<Rightarrow> mcount_opts \<Rightarrow> mcount_opts" where
  "mcount_option r mo =
     (let (c, optarg, _) = r; n = strtol (case optarg of Some a \<Rightarrow> a | None \<Rightarrow> []) in
      if c = CHR ''m'' then mo\<lparr>mo_mem_bin := ucast (push_bit 20 (word_of_int n :: u64))\<rparr>
      else if c = CHR ''a'' then mo\<lparr>mo_acc_bin := word_of_int n\<rparr>
      else if c = CHR ''f'' then mo\<lparr>mo_filename := optarg\<rparr>
      else if c = CHR ''t'' then mo\<lparr>mo_tag := optarg\<rparr>
      else mo)"

text \<open>\<open>ram_size\<close> is QEMU's answer to \<open>qemu_plugin_ram_size\<close>.\<close>

definition mcount_control :: "(string \<Rightarrow> bool) \<Rightarrow> u64 \<Rightarrow> mcount_state control" where
  "mcount_control fopen_ok ram_size argv s g =
     (let echo = echo_argv ''mcount control'' argv in
      if argv = [] \<or> hd argv \<noteq> ''mcount'' then
        Inr (-1, s, g, echo @ [Stderr (''Misdirected control for '' @ argv0_text argv @ newline)])
      else
        bind_res (getopt_loop ''f:a:m:'' g argv) (\<lambda>(opts, g', argv').
          let mo = fold mcount_option opts mcount_defaults; i = optind g'; errs = getopt_errors opts in
          if length argv' \<le> i \<or> argv' ! i = ''start'' then
            bind_res (hypercall_mcount_init fopen_ok (mo_filename mo) ram_size (mo_mem_bin mo)
                        (mo_acc_bin mo) s) (\<lambda>(s', es).
              Inr (0, s', g', echo @ errs @ es @ [Register On_Tb_Trans, Tb_Flush]))
          else if argv' ! i = ''tag'' then
            (case mo_tag mo of
               None \<Rightarrow> Inr (-1, s, g'\<lparr>optind := 0\<rparr>,
                            echo @ errs @ [Stderr (''mcount tag missing argument.'' @ newline)])
             | Some t \<Rightarrow> Inr (0, hypercall_mcount_tag t s, g', echo @ errs))
          else if argv' ! i = ''stop'' then
            let (s', es) = hypercall_mcount_fini s in Inr (0, s', g', echo @ errs @ es @ [Plugin_Reset])
          else Inr (-1, s, g'\<lparr>optind := 0\<rparr>, echo @ errs)))"

definition mcount_install :: "u32 \<Rightarrow> mcount_state \<Rightarrow> int \<times> mcount_state" where
  "mcount_install smp_vcpus s = (0, s\<lparr>ncores := smp_vcpus\<rparr>)"

interpretation mcount: plugin_control "''mcount''" "mcount_control fopen_ok ram_size"
proof
  fix argv s g
  show "argv = [] \<or> hd argv \<noteq> ''mcount'' \<Longrightarrow>
          \<exists>es. mcount_control fopen_ok ram_size argv s g = Inr (-1, s, g, es)"
    by (auto simp: mcount_control_def Let_def)
qed

section \<open>The command line\<close>

text \<open>A scan only reports options of its option string, or \<open>?\<close>.\<close>

lemma getopt_short_chars:
  "getopt_short os g argv = Inr (r, g') \<Longrightarrow> fst r = CHR ''?'' \<or> opt_kind os (fst r) \<noteq> None"
  by (auto simp: getopt_short_def Let_def split: option.splits opt_kind.splits if_splits)

lemma getopt_chars:
  "getopt os g argv = Inr (Some r, g', argv') \<Longrightarrow> fst r = CHR ''?'' \<or> opt_kind os (fst r) \<noteq> None"
  by (auto simp: getopt_def Let_def bind_res_eq_Inr split: if_splits prod.splits
      dest: getopt_short_chars)

lemma getopt_loop_chars:
  "getopt_loop os g argv = Inr (rs, g', argv') \<Longrightarrow> r \<in> set rs \<Longrightarrow>
     fst r = CHR ''?'' \<or> opt_kind os (fst r) \<noteq> None"
proof (induction os g argv arbitrary: rs rule: getopt_loop.induct)
  case (1 os g argv)
  then show ?case
    by (subst (asm) (2) getopt_loop.simps)
       (fastforce split: sum.splits option.splits prod.splits dest: getopt_chars)
qed

lemma mo_tag_fold:
  "\<forall>r \<in> set opts. fst r \<noteq> CHR ''t'' \<Longrightarrow> mo_tag (fold mcount_option opts mo) = mo_tag mo"
  by (induction opts arbitrary: mo) (auto simp: mcount_option_def Let_def split: prod.splits)

section \<open>Refinement to a histogram of the current window\<close>

text \<open>
  The specification: the number of accesses since \<open>start\<close>, the number of i/o accesses, and
  the accesses since the last report (the access that triggers a report is counted after it).
\<close>

type_synonym mem_access = "nat \<times> qemu_view"

record window =
  w_total :: nat
  w_io :: nat
  w_accs :: "mem_access list"

definition empty_window :: window where
  "empty_window = \<lparr>w_total = 0, w_io = 0, w_accs = []\<rparr>"

definition count_in :: "u32 \<Rightarrow> mem_access list \<Rightarrow> bool \<Rightarrow> nat \<Rightarrow> nat \<Rightarrow> nat" where
  "count_in mbin w k c b =
     length (filter (\<lambda>(cpu, q). \<not> q_is_io q \<and> q_in_kernel q = k \<and> cpu = c \<and>
                                unat (q_paddr q div ucast mbin) = b) w)"

definition hist :: "nat \<Rightarrow> nat \<Rightarrow> u32 \<Rightarrow> bool \<Rightarrow> mem_access list \<Rightarrow> u32 list list" where
  "hist nc nb mbin k w = map (\<lambda>c. map (\<lambda>b. of_nat (count_in mbin w k c b)) [0..<nb]) [0..<nc]"

definition side_text :: "u32 list list \<Rightarrow> string" where
  "side_text maps =
     concat (map (\<lambda>i. core_text i (maps ! i)) [0..<length maps])"

definition n_bins :: "mcount_config \<Rightarrow> nat" where
  "n_bins c = unat (total_mem c div ucast (mem_bin c))"

definition window_step :: "nat \<Rightarrow> window \<Rightarrow> mem_access \<Rightarrow> window" where
  "window_step a W x =
     \<lparr>w_total = Suc (w_total W),
      w_io = w_io W + (if q_is_io (snd x) then 1 else 0),
      w_accs = (if Suc (w_total W) mod a = 0 then [x] else w_accs W @ [x])\<rparr>"

definition window_report :: "mcount_state \<Rightarrow> window \<Rightarrow> effect list" where
  "window_report s W =
     (if Suc (w_total W) mod unat (acc_bin (cfg s)) = 0
      then [fputs (the (mc_report (cfg s)))
             (''K = {'' @ side_text (hist (unat (ncores s)) (n_bins (cfg s)) (mem_bin (cfg s)) True (w_accs W)) @
              ''}; U = {'' @ side_text (hist (unat (ncores s)) (n_bins (cfg s)) (mem_bin (cfg s)) False (w_accs W)) @
              ''}'' @ newline)]
      else [])"

definition mcount_rep :: "window \<Rightarrow> mcount_state \<Rightarrow> bool" where
  "mcount_rep W s \<longleftrightarrow>
     mc_mode (cfg s) = MCOUNT_ON \<and> mc_report (cfg s) \<noteq> None \<and>
     mem_bin (cfg s) \<noteq> 0 \<and> acc_bin (cfg s) \<noteq> 0 \<and>
     kmaps s = hist (unat (ncores s)) (n_bins (cfg s)) (mem_bin (cfg s)) True (w_accs W) \<and>
     umaps s = hist (unat (ncores s)) (n_bins (cfg s)) (mem_bin (cfg s)) False (w_accs W) \<and>
     acc_cnt s = of_nat (w_total W) \<and> acc_io_cnt s = of_nat (w_io W) \<and>
     length (w_accs W) \<le> w_total W mod unat (acc_bin (cfg s)) +
       (if w_total W < unat (acc_bin (cfg s)) then 0 else 1)"

text \<open>An access the vectors have room for.\<close>

definition in_range :: "mcount_state \<Rightarrow> mem_access \<Rightarrow> bool" where
  "in_range s x \<longleftrightarrow>
     fst x < unat (ncores s) \<and>
     (q_is_io (snd x) \<or> unat (q_paddr (snd x) div ucast (mem_bin (cfg s))) < n_bins (cfg s))"

lemma length_hist [simp]: "length (hist nc nb mbin k w) = nc"
  by (simp add: hist_def)

lemma hist_nth [simp]:
  "c < nc \<Longrightarrow> hist nc nb mbin k w ! c = map (\<lambda>b. of_nat (count_in mbin w k c b)) [0..<nb]"
  by (simp add: hist_def)

lemma count_in_snoc:
  "count_in mbin (w @ [x]) k c b = count_in mbin w k c b +
     (if \<not> q_is_io (snd x) \<and> q_in_kernel (snd x) = k \<and> fst x = c \<and>
         unat (q_paddr (snd x) div ucast mbin) = b then 1 else 0)"
  by (cases x) (simp add: count_in_def)

lemma hist_skip:
  "q_is_io (snd x) \<or> q_in_kernel (snd x) \<noteq> k \<Longrightarrow>
     hist nc nb mbin k (w @ [x]) = hist nc nb mbin k w"
  by (auto simp: hist_def count_in_snoc)

lemma bump_hist:
  assumes "\<not> q_is_io q" "q_in_kernel q = k" "c < nc" "unat (q_paddr q div ucast mbin) < nb"
    "mbin \<noteq> 0"
  shows "bump c (q_paddr q) mbin (hist nc nb mbin k w) = Inr (hist nc nb mbin k (w @ [(c, q)]))"
  using assms
  by (auto simp: bump_def Let_def count_in_snoc intro!: nth_equalityI)
     (auto simp: nth_list_update count_in_snoc intro!: nth_equalityI)

lemma hist_Nil: "map (map (\<lambda>_. 0)) (hist nc nb mbin k w) = hist nc nb mbin k []"
  by (simp add: hist_def count_in_def)

lemma flush_rows_from:
  "i \<le> length maps \<Longrightarrow> flush_rows [i..<length maps] maps =
     Inr (take i maps @ map (map (\<lambda>_. 0)) (drop i maps),
          concat (map (\<lambda>i. core_text i (maps ! i)) [i..<length maps]))"
proof (induction "length maps - i" arbitrary: i maps)
  case 0
  then show ?case by simp
next
  case (Suc d)
  then have i: "i < length maps" by simp
  let ?m = "maps[i := map (\<lambda>_. 0) (maps ! i)]"
  have "flush_rows [Suc i..<length ?m] ?m =
    Inr (take (Suc i) ?m @ map (map (\<lambda>_. 0)) (drop (Suc i) ?m),
         concat (map (\<lambda>i. core_text i (?m ! i)) [Suc i..<length ?m]))"
    using Suc by (intro Suc.hyps(1)) auto
  moreover have "take (Suc i) ?m @ map (map (\<lambda>_. 0)) (drop (Suc i) ?m) =
      take i maps @ map (map (\<lambda>_. 0)) (drop i maps)"
    using i by (simp add: take_Suc_conv_app_nth Cons_nth_drop_Suc [symmetric])
  moreover have "map (\<lambda>j. core_text j (?m ! j)) [Suc i..<length maps] =
      map (\<lambda>j. core_text j (maps ! j)) [Suc i..<length maps]"
    by (rule map_cong) auto
  ultimately show ?case using i by (simp add: upt_conv_Cons)
qed

lemma flush_hist:
  "unat nc = n \<Longrightarrow> mcount_flush nc (hist n nb mbin k w) =
     Inr (hist n nb mbin k [], side_text (hist n nb mbin k w))"
  using flush_rows_from [of 0 "hist n nb mbin k w"]
  by (simp add: mcount_flush_def side_text_def hist_Nil)

lemma mcount_step_refines:
  assumes rep: "mcount_rep W s" and x: "in_range s x" and n: "Suc (w_total W) < 2 ^ 64"
  shows "\<exists>s'. mcount_vcpu_mem (fst x) (snd x) s = Inr (s', window_report s W) \<and>
           mcount_rep (window_step (unat (acc_bin (cfg s))) W x) s' \<and>
           cfg s' = cfg s \<and> ncores s' = ncores s"
proof -
  let ?a = "unat (acc_bin (cfg s))"
  let ?h = "hist (unat (ncores s)) (n_bins (cfg s)) (mem_bin (cfg s))"
  obtain c q where xq: "x = (c, q)" by (cases x)
  obtain f where f: "mc_report (cfg s) = Some f" using rep by (auto simp: mcount_rep_def)
  have a0: "0 < ?a" using rep by (simp add: mcount_rep_def unat_gt_0)
  have "unat (of_nat (Suc (w_total W)) mod ucast (acc_bin (cfg s)) :: u64) = Suc (w_total W) mod ?a"
    using n by (simp add: unat_mod unat_of_nat del: of_nat_Suc)
  then have due: "of_nat (Suc (w_total W)) mod ucast (acc_bin (cfg s)) = (0 :: u64) \<longleftrightarrow>
      Suc (w_total W) mod ?a = 0"
    by (metis unat_eq_zero)
  have len: "length (w_accs (window_step ?a W x)) \<le> Suc (w_total W) mod ?a +
       (if Suc (w_total W) < ?a then 0 else 1)"
    using rep a0 by (auto simp: mcount_rep_def window_step_def mod_Suc split: if_splits)
  define w where "w = (if Suc (w_total W) mod ?a = 0 then [] else w_accs W)"
  define s2 where "s2 = s\<lparr>acc_cnt := of_nat (Suc (w_total W)), kmaps := ?h True w, umaps := ?h False w\<rparr>"
  let ?due = "if acc_cnt (s\<lparr>acc_cnt := acc_cnt s + 1\<rparr>) mod ucast (acc_bin (cfg s)) = 0
       then mcount_report (s\<lparr>acc_cnt := acc_cnt s + 1\<rparr>) else Inr (s\<lparr>acc_cnt := acc_cnt s + 1\<rparr>, [])"
  let ?s3 = "s2\<lparr>acc_io_cnt := of_nat (w_io (window_step ?a W x)),
             kmaps := ?h True (w @ [x]), umaps := ?h False (w @ [x])\<rparr>"
  have report: "?due = Inr (s2, window_report s W)"
    using rep due f
    by (auto simp: mcount_rep_def mcount_report_def flush_hist window_report_def s2_def w_def add.commute)
  have count: "mcount_count c q s2 = Inr ?s3"
    using rep x by (auto simp: mcount_count_def s2_def bump_hist hist_skip window_step_def
        mcount_rep_def in_range_def xq add.commute)
  have "hypercall_mcount_cb c q s =
      bind_res ?due (\<lambda>(s2, es). bind_res (mcount_count c q s2) (\<lambda>s3. Inr (s3, es)))"
    using rep by (simp add: hypercall_mcount_cb_def Let_def mcount_rep_def)
  then have cb: "mcount_vcpu_mem c q s = Inr (?s3, window_report s W)"
    unfolding report mcount_vcpu_mem_def by (simp add: count)
  have w: "w_accs (window_step ?a W x) = w @ [x]" by (simp add: w_def window_step_def)
  have "mcount_rep (window_step ?a W x) ?s3"
    unfolding mcount_rep_def w using rep len [unfolded w]
    by (simp add: mcount_rep_def s2_def window_step_def del: of_nat_Suc)
  then show ?thesis using cb by (auto simp: xq s2_def)
qed


fun mcount_accesses :: "mem_access list \<Rightarrow> mcount_state \<Rightarrow> fault + (mcount_state \<times> effect list)" where
  "mcount_accesses [] s = Inr (s, [])"
| "mcount_accesses (x # xs) s =
     bind_res (mcount_vcpu_mem (fst x) (snd x) s) (\<lambda>(s', es).
       bind_res (mcount_accesses xs s') (\<lambda>(s'', fs). Inr (s'', es @ fs)))"

fun window_run :: "mcount_state \<Rightarrow> mem_access list \<Rightarrow> window \<Rightarrow> window \<times> effect list" where
  "window_run s [] W = (W, [])"
| "window_run s (x # xs) W =
     (let (W', es) = window_run s xs (window_step (unat (acc_bin (cfg s))) W x)
      in (W', window_report s W @ es))"

lemma window_run_cong:
  "cfg s = cfg s' \<Longrightarrow> ncores s = ncores s' \<Longrightarrow> window_run s xs W = window_run s' xs W"
  by (induction xs arbitrary: W) (simp_all add: window_report_def)

lemma mcount_accesses_refine:
  assumes "mcount_rep W s" "\<forall>x \<in> set xs. in_range s x" "w_total W + length xs < 2 ^ 64"
  shows "\<exists>s'. mcount_accesses xs s = Inr (s', snd (window_run s xs W)) \<and>
           mcount_rep (fst (window_run s xs W)) s' \<and> cfg s' = cfg s \<and> ncores s' = ncores s"
  using assms
proof (induction xs arbitrary: W s)
  case (Cons x xs)
  obtain s1 where 1: "mcount_vcpu_mem (fst x) (snd x) s = Inr (s1, window_report s W)"
      "mcount_rep (window_step (unat (acc_bin (cfg s))) W x) s1" "cfg s1 = cfg s" "ncores s1 = ncores s"
    using mcount_step_refines [of W s x] Cons.prems by auto
  obtain s2 where 2: "mcount_accesses xs s1 =
        Inr (s2, snd (window_run s1 xs (window_step (unat (acc_bin (cfg s))) W x)))"
      "mcount_rep (fst (window_run s1 xs (window_step (unat (acc_bin (cfg s))) W x))) s2"
      "cfg s2 = cfg s1" "ncores s2 = ncores s1"
    using Cons.IH [OF 1(2)] Cons.prems 1(3,4) by (auto simp: in_range_def window_step_def)
  have "window_run s1 xs V = window_run s xs V" for V by (rule window_run_cong) (simp_all add: 1)
  with 1 2 show ?case by (simp add: split_beta Let_def)
qed simp

lemma hist_empty: "hist nc nb mbin k [] = replicate nc (replicate nb 0)"
  by (simp add: hist_def count_in_def map_replicate_const)

lemma clear_maps_hist:
  "mbin \<noteq> 0 \<Longrightarrow> clear_maps nc ram mbin maps =
     Inr (hist (unat nc) (unat (ram div ucast mbin)) mbin k [])"
  by (simp add: clear_maps_def Let_def hist_empty map_replicate_const)

lemma mcount_init_ok:
  assumes "mbin \<noteq> 0" "\<forall>n. rp = Some n \<longrightarrow> fopen_ok n"
  shows "\<exists>s' es. hypercall_mcount_init fopen_ok rp ram mbin abin s = Inr (s', es) \<and>
           cfg s' = \<lparr>mc_mode = MCOUNT_ON,
                    mc_report = Some (case rp of None \<Rightarrow> Std_Out | Some n \<Rightarrow> Named n),
                    mem_bin = mbin, acc_bin = abin, total_mem = ram\<rparr> \<and> ncores s' = ncores s"
  using assms by (cases rp) (auto simp: hypercall_mcount_init_def clear_maps_hist [where k = True] Let_def)

lemma mcount_init_rep:
  assumes "hypercall_mcount_init fopen_ok rp ram mbin abin s = Inr (s', es)"
    "mbin \<noteq> 0" "abin \<noteq> 0"
  shows "mcount_rep empty_window s'"
  using assms
  by (auto simp: hypercall_mcount_init_def clear_maps_hist [where k = True] Let_def mcount_rep_def
      empty_window_def n_bins_def hist_empty split: option.splits if_splits)

text \<open>C16: The plugin computes exact histograms: after a successful init with non-zero bins, for any
  sequence of in-range accesses it never faults, prints a report exactly at every
  \<open>acc_bin\<close>-th access, each report shows for every core and bin the number of kernel and user
  accesses since the previous report, and the total and i/o counters count every access.\<close>

theorem mcount_refines_histogram:
  assumes "hypercall_mcount_init fopen_ok rp ram mbin abin s0 = Inr (s, es0)"
    "mbin \<noteq> 0" "abin \<noteq> 0" "\<forall>x \<in> set xs. in_range s x" "length xs < 2 ^ 64"
  shows "\<exists>s'. mcount_accesses xs s = Inr (s', snd (window_run s xs empty_window)) \<and>
           mcount_rep (fst (window_run s xs empty_window)) s'"
  using mcount_accesses_refine [OF mcount_init_rep [OF assms(1-3)]] assms(4,5)
  by (auto simp: empty_window_def)

lemma mcount_rep_exact:
  assumes "mcount_rep W s" "c < unat (ncores s)" "b < n_bins (cfg s)"
  shows "unat (kmaps s ! c ! b) = count_in (mem_bin (cfg s)) (w_accs W) True c b \<and>
    unat (umaps s ! c ! b) = count_in (mem_bin (cfg s)) (w_accs W) False c b \<and>
    length (w_accs W) \<le> unat (acc_bin (cfg s)) \<and> unat (acc_cnt s) = w_total W mod 2 ^ 64"
proof -
  have a: "0 < unat (acc_bin (cfg s))" "unat (acc_bin (cfg s)) < 2 ^ LENGTH(32)"
    using assms(1) unsigned_less [of "acc_bin (cfg s)"] by (simp_all add: mcount_rep_def unat_gt_0)
  have "w_total W mod unat (acc_bin (cfg s)) < unat (acc_bin (cfg s))" using a(1) by simp
  then have len: "length (w_accs W) \<le> unat (acc_bin (cfg s))"
    using assms(1) by (auto simp: mcount_rep_def split: if_splits)
  have "count_in (mem_bin (cfg s)) (w_accs W) k c b \<le> unat (acc_bin (cfg s))" for k
    unfolding count_in_def using length_filter_le le_trans len by blast
  then have "unat (of_nat (count_in (mem_bin (cfg s)) (w_accs W) k c b) :: u32) =
      count_in (mem_bin (cfg s)) (w_accs W) k c b" for k
    using a(2) le_less_trans by (subst unat_of_nat) (auto intro!: mod_less)
  with assms len show ?thesis by (simp add: mcount_rep_def unat_of_nat)
qed

text \<open>The window that is open after a run holds the accesses from the last multiple of
  \<open>acc_bin\<close> on.\<close>

lemma window_run_snoc:
  "fst (window_run s (xs @ [x]) W) = window_step (unat (acc_bin (cfg s))) (fst (window_run s xs W)) x"
  by (induction xs arbitrary: W) (simp_all add: split_beta Let_def)

lemma window_run_open:
  "0 < unat (acc_bin (cfg s)) \<Longrightarrow>
   w_total (fst (window_run s xs empty_window)) = length xs \<and>
   w_accs (fst (window_run s xs empty_window)) =
     drop (length xs div unat (acc_bin (cfg s)) * unat (acc_bin (cfg s)) - 1) xs"
proof (induction xs rule: rev_induct)
  case (snoc x xs)
  let ?a = "unat (acc_bin (cfg s))" and ?n = "length xs"
  have IH: "w_total (fst (window_run s xs empty_window)) = ?n"
    "w_accs (fst (window_run s xs empty_window)) = drop (?n div ?a * ?a - 1) xs"
    using snoc by simp_all
  show ?case
  proof (cases "Suc ?n mod ?a = 0")
    case True
    then have "Suc ?n div ?a * ?a = Suc ?n" by (metis add.right_neutral div_mult_mod_eq)
    with True IH show ?thesis by (simp add: window_run_snoc window_step_def)
  next
    case False
    then have "Suc ?n div ?a = ?n div ?a" using snoc.prems by (simp add: div_Suc)
    moreover have "?n div ?a * ?a - 1 \<le> ?n" using div_times_less_eq_dividend [of ?n ?a] by linarith
    ultimately show ?thesis using False IH by (simp add: window_run_snoc window_step_def)
  qed
qed (simp add: empty_window_def)

text \<open>C24: No 32-bit counter ever wraps: after a successful init with non-zero bins and any sequence
  of fewer than \<open>2^64\<close> in-range accesses, the counters of each core and bin equal the unbounded numbers of
  its kernel and of its user accesses since the last report, those from the last access whose number is a
  multiple of \<open>acc_bin\<close> on, which are at most \<open>acc_bin\<close>; and \<open>acc_cnt\<close> is the number of all accesses.\<close>

theorem mcount_counters_exact:
  assumes "hypercall_mcount_init fopen_ok rp ram mbin abin s0 = Inr (s, es0)"
    "mbin \<noteq> 0" "abin \<noteq> 0" "\<forall>x \<in> set xs. in_range s x" "length xs < 2 ^ 64"
    "c < unat (ncores s)" "b < n_bins (cfg s)"
  shows "\<exists>s' es. mcount_accesses xs s = Inr (s', es) \<and>
    (let w = drop (length xs div unat abin * unat abin - 1) xs in
     length w \<le> unat abin \<and>
     unat (kmaps s' ! c ! b) = length (filter (\<lambda>(cpu, q). cpu = c \<and> \<not> q_is_io q \<and> q_in_kernel q \<and>
       unat (q_paddr q) div unat mbin = b) w) \<and>
     unat (umaps s' ! c ! b) = length (filter (\<lambda>(cpu, q). cpu = c \<and> \<not> q_is_io q \<and> \<not> q_in_kernel q \<and>
       unat (q_paddr q) div unat mbin = b) w) \<and>
     unat (acc_cnt s') = length xs)"
proof -
  note rep = mcount_init_rep [OF assms(1-3)]
  have cfg: "acc_bin (cfg s) = abin" "mem_bin (cfg s) = mbin"
    using assms(1) by (auto simp: hypercall_mcount_init_def Let_def bind_res_eq_Inr split: option.splits)
  from mcount_accesses_refine [OF rep assms(4)] assms(5) obtain s' where
    s': "mcount_accesses xs s = Inr (s', snd (window_run s xs empty_window))"
      "mcount_rep (fst (window_run s xs empty_window)) s'" "cfg s' = cfg s" "ncores s' = ncores s"
    by (auto simp: empty_window_def)
  have "0 < unat (acc_bin (cfg s))" using assms(3) by (simp add: cfg unat_gt_0)
  note w = window_run_open [OF this, of xs]
  have "unat (p div ucast mbin) = unat p div unat mbin" for p :: u64
    by (simp add: unat_div)
  with mcount_rep_exact [OF s'(2), of c b] s'(1,3,4) assms(5-7) w show ?thesis
    by (simp add: cfg count_in_def Let_def conj_ac)
qed

text \<open>A configuration with one core and four bins of 16 bytes, reporting every second access.\<close>

definition demo_init :: mcount_state where
  "demo_init =
     (case hypercall_mcount_init (\<lambda>_. True) None 64 16 2 (mcount_initial\<lparr>ncores := 1\<rparr>) of
        Inr (s, _) \<Rightarrow> s | Inl _ \<Rightarrow> mcount_initial)"

definition demo_access :: "bool \<Rightarrow> u64 \<Rightarrow> mem_access" where
  "demo_access k pa = (0, \<lparr>q_in_kernel = k, q_page_directory = 0, q_is_store = True, q_paddr = pa,
                          q_is_io = False\<rparr>)"

lemma demo_init_eq:
  "hypercall_mcount_init (\<lambda>_. True) None 64 16 2 (mcount_initial\<lparr>ncores := 1\<rparr>) =
     Inr (demo_init, [fputs Std_Out (cfg_line None (cfg demo_init) 1)])"
  "cfg demo_init = \<lparr>mc_mode = MCOUNT_ON, mc_report = Some Std_Out, mem_bin = 16, acc_bin = 2,
                    total_mem = 64\<rparr>"
  "ncores demo_init = 1"
  by (simp_all add: demo_init_def hypercall_mcount_init_def clear_maps_def mcount_initial_def
      vec_resize_def Let_def)

lemma demo_bins:
  "n_bins \<lparr>mc_mode = MCOUNT_ON, mc_report = Some Std_Out, mem_bin = 16, acc_bin = 2,
            total_mem = 64\<rparr> = 4"
  by (simp add: n_bins_def)

definition demo_run :: "mem_access list" where
  "demo_run = [demo_access True 5, demo_access False 17, demo_access True 63]"

lemma demo_run_props:
  "\<forall>x \<in> set demo_run. in_range demo_init x"
  "w_accs (fst (window_run demo_init demo_run empty_window)) =
     [demo_access False 17, demo_access True 63]"
  "length (snd (window_run demo_init demo_run empty_window)) = 1"
  by (simp_all add: demo_run_def in_range_def demo_access_def demo_init_eq demo_bins
      window_report_def empty_window_def window_step_def)

theorem mcount_refines_histogram_witness:
  "\<exists>s' es. mcount_accesses demo_run demo_init = Inr (s', es) \<and> length es = 1"
proof -
  have "\<exists>s'. mcount_accesses demo_run demo_init =
               Inr (s', snd (window_run demo_init demo_run empty_window)) \<and>
             mcount_rep (fst (window_run demo_init demo_run empty_window)) s'"
    by (rule mcount_refines_histogram [OF demo_init_eq(1)])
       (simp_all add: demo_run_props(1), simp add: demo_run_def)
  then show ?thesis using demo_run_props(3) by auto
qed

theorem mcount_counters_exact_witness:
  "\<exists>s' es. mcount_accesses demo_run demo_init = Inr (s', es) \<and> unat (kmaps s' ! 0 ! 3) = 1 \<and>
     unat (umaps s' ! 0 ! 3) = 0 \<and> unat (acc_cnt s') = 3"
proof -
  have "length demo_run = 3" "drop (Suc 0) demo_run = [demo_access False 17, demo_access True 63]"
    by (simp_all add: demo_run_def)
  then show ?thesis
    using mcount_counters_exact [OF demo_init_eq(1) _ _ demo_run_props(1), of 0 3]
    by (simp add: demo_init_eq demo_bins Let_def) (auto simp: demo_access_def)
qed

text \<open>C27: The subcommand \<open>tag\<close> can never succeed: the option string lacks \<open>t\<close>, so for every
  argument vector and every state of \<open>getopt\<close> a control call that returns either leaves the
  tags as they were or (by a \<open>start\<close>) clears them; no tag is ever stored.\<close>

theorem mcount_tag_unreachable:
  assumes "mcount_control fopen_ok ram argv s g = Inr (rc, s', g', es)"
  shows "tags s' = tags s \<or> tags s' = []"
proof (cases "argv = [] \<or> hd argv \<noteq> ''mcount''")
  case True
  with assms show ?thesis by (auto simp: mcount_control_def Let_def)
next
  case False
  with assms obtain opts h argv' where l: "getopt_loop ''f:a:m:'' g argv = Inr (opts, h, argv')"
    by (auto simp: mcount_control_def Let_def bind_res_eq_Inr)
  have "mo_tag (fold mcount_option opts mcount_defaults) = mo_tag mcount_defaults"
  proof (rule mo_tag_fold, rule ballI)
    fix r assume "r \<in> set opts"
    from getopt_loop_chars [OF l this] show "fst r \<noteq> CHR ''t''" by (auto simp: opt_kind_def)
  qed
  then have none: "mo_tag (fold mcount_option opts mcount_defaults) = None"
    by (simp add: mcount_defaults_def)
  have init: "hypercall_mcount_init fopen_ok rp rm mb ab s = Inr (t, fs) \<Longrightarrow> tags t = []" for rp rm mb ab t fs
    by (auto simp: hypercall_mcount_init_def Let_def bind_res_eq_Inr split: option.splits)
  have fini: "tags (fst (hypercall_mcount_fini s)) = tags s"
    by (simp add: hypercall_mcount_fini_def Let_def split: option.split)
  show ?thesis using assms False l none fini
    by (auto simp: mcount_control_def Let_def bind_res_eq_Inr split_beta split: if_splits dest: init)
qed


theorem mcount_tag_unreachable_witness:
  "\<exists>s' g' es. mcount_control (\<lambda>_. True) 64 [''mcount'', ''tag'', ''-t'', ''x''] mcount_initial getopt_start =
     Inr (-1, s', g', es) \<and> tags s' = []"
proof -
  let ?r = "mcount_control (\<lambda>_. True) 64 [''mcount'', ''tag'', ''-t'', ''x''] mcount_initial getopt_start"
  have l: "getopt_loop ''f:a:m:'' getopt_start [''mcount'', ''tag'', ''-t'', ''x''] =
    Inr ([(CHR ''?'', None, Some (getopt_message [''mcount''] ''invalid option'' CHR ''t''))], \<lparr>optind = 2, nextchar = [], first_nonopt = 2, last_nonopt = 4,
          initialized = True\<rparr>, [''mcount'', ''-t'', ''tag'', ''x''])"
    by (simp add: getopt_eval getopt_message_def getopt_start_def)
  have "\<exists>s' g' es. ?r = Inr (-1, s', g', es)"
    by (simp add: mcount_control_def l mcount_option_def mcount_defaults_def)
  then obtain s' g' es where r: "?r = Inr (-1, s', g', es)" by blast
  from mcount_tag_unreachable [OF r] r show ?thesis by (auto simp: mcount_initial_def)
qed

text \<open>C25: A control call of \<open>mcount\<close> poisons the option scanner for the next one: after
  \<open>mcount -f <file> start\<close> from a fresh \<open>getopt\<close> the scanner is not fresh, and
  the natural next command \<open>mcount stop\<close> makes it read outside the argument vector,
  so the session faults before \<open>stop\<close> is recognised. Only the error exits of the control function reset
  \<open>optind\<close>.\<close>

theorem mcount_start_stop_faults:
  assumes "getopt_fresh g" "fopen_ok file"
  shows "session (mcount_control fopen_ok ram)
           [[''mcount'', ''-f'', file, ''start''], [''mcount'', ''stop'']] s g = Inl Out_Of_Bounds"
proof -
  have l1: "getopt_loop ''f:a:m:'' g [''mcount'', ''-f'', file, ''start''] =
    Inr ([(CHR ''f'', Some file, None)], \<lparr>optind = 3, nextchar = [], first_nonopt = 3, last_nonopt = 4,
          initialized = True\<rparr>, [''mcount'', ''-f'', file, ''start''])"
    by (subst getopt_loop_fresh [OF assms(1)]) (simp_all add: getopt_eval getopt_start_def)
  have l2: "getopt_loop ''f:a:m:'' \<lparr>optind = 3, nextchar = [], first_nonopt = 3, last_nonopt = 4,
          initialized = True\<rparr> [''mcount'', ''stop''] = Inl Out_Of_Bounds"
    by (simp add: getopt_eval)
  obtain s' es where init: "hypercall_mcount_init fopen_ok (Some file) ram 16777216 100 s = Inr (s', es)"
    using mcount_init_ok [of 16777216 "Some file" fopen_ok ram 100 s] assms(2) by auto
  show ?thesis
    by (simp add: mcount_control_def l1 l2 mcount_option_def mcount_defaults_def init Let_def)
qed

theorem mcount_start_stop_faults_witness:
  "session (mcount_control (\<lambda>_. True) 64)
     [[''mcount'', ''-f'', ''out'', ''start''], [''mcount'', ''stop'']] mcount_initial getopt_start =
   Inl Out_Of_Bounds"
  by (rule mcount_start_stop_faults) simp_all

text \<open>C26: A bin size that is a multiple of \<open>4 GiB\<close> wraps to 0 in the 32-bit \<open>mem_bin\<close>, and \<open>start\<close>
  then divides by it; this concerns every \<open>-m\<close> argument that \<open>strtol\<close> reads as a multiple
  of 4096.\<close>

theorem mcount_bin_size_wraps:
  assumes "getopt_fresh g" "4096 dvd strtol v" "ncores s \<noteq> 0"
  shows "mcount_control fopen_ok ram [''mcount'', ''-m'', v] s g = Inl Div_By_Zero"
proof -
  have l: "getopt_loop ''f:a:m:'' g [''mcount'', ''-m'', v] =
    Inr ([(CHR ''m'', Some v, None)], \<lparr>optind = 3, nextchar = [], first_nonopt = 3, last_nonopt = 3,
          initialized = True\<rparr>, [''mcount'', ''-m'', v])"
    by (subst getopt_loop_fresh [OF assms(1)]) (simp_all add: getopt_eval getopt_start_def)
  obtain k where k: "strtol v = 4096 * k" using assms(2) by blast
  have "(word_of_int (strtol v) :: u64) = push_bit 12 (word_of_int k)"
    by (simp add: k push_bit_eq_mult)
  then have z: "(ucast (push_bit 20 (word_of_int (strtol v) :: u64)) :: u32) = 0"
    by (intro bit_word_eqI) (simp add: bit_word_ucast_iff bit_push_bit_iff)
  have ne: "vec_resize (unat (ncores s)) [] m \<noteq> []" for m :: "u32 list list"
    using assms(3) length_vec_resize [of "unat (ncores s)" "[]" m] unat_eq_zero [of "ncores s"]
    by (metis list.size(3))
  show ?thesis
    by (simp add: mcount_control_def l mcount_option_def mcount_defaults_def z
        hypercall_mcount_init_def clear_maps_def ne Let_def)
qed

theorem mcount_bin_size_wraps_witness:
  "mcount_control (\<lambda>_. True) 64 [''mcount'', ''-m'', ''4096''] (mcount_initial\<lparr>ncores := 4\<rparr>) getopt_start =
     Inl Div_By_Zero"
proof -
  have "strtol ''4096'' = 4096" by code_simp
  then show ?thesis by (intro mcount_bin_size_wraps) simp_all
qed

end
