(* ===== verification/Slomo.thy ===== *)
theory Slomo
  imports Plugin_Api
begin

text \<open>
  \<open>host/slomo.cc\<close>: the plugin that slows the guest down by a rate and counts the
  instructions between two interrupts.
\<close>

section \<open>State and callbacks\<close>

record slomo_state =
  sl_icount :: u64

definition slomo_initial :: slomo_state where
  "slomo_initial = \<lparr>sl_icount = 0\<rparr>"

definition slomo_vcpu_interrupt_cb :: "slomo_state \<Rightarrow> slomo_state \<times> effect list" where
  "slomo_vcpu_interrupt_cb s =
     (s\<lparr>sl_icount := 0\<rparr>, [Stdout (''icount = '' @ show_u (unat (sl_icount s)) @ newline)])"

definition slomo_vcpu_tb_exec_cb :: "u64 \<Rightarrow> slomo_state \<Rightarrow> slomo_state" where
  "slomo_vcpu_tb_exec_cb udata s = s\<lparr>sl_icount := sl_icount s + udata\<rparr>"

text \<open>The block callback is registered with the block's instruction count as its data.\<close>

definition slomo_vcpu_tb_trans :: "nat \<Rightarrow> u64" where
  "slomo_vcpu_tb_trans n_insns = of_nat n_insns"

section \<open>Control\<close>

definition slomo_option :: "opt \<Rightarrow> u64 \<Rightarrow> u64" where
  "slomo_option r rate =
     (let (c, optarg, _) = r in
      if c = CHR ''r'' then word_of_int (strtol (case optarg of Some a \<Rightarrow> a | None \<Rightarrow> [])) else rate)"

definition slomo_control :: "slomo_state control" where
  "slomo_control argv s g =
     (let echo = echo_argv ''slomo control'' argv in
      if argv = [] \<or> hd argv \<noteq> ''slomo'' then
        Inr (-1, s, g, echo @ [Stderr (''Misdirected control for '' @ argv0_text argv @ newline)])
      else
        bind_res (getopt_loop ''r:'' g argv) (\<lambda>(opts, g', argv').
          let rate = fold slomo_option opts 1; i = optind g'; g'' = g'\<lparr>optind := 0\<rparr>;
              errs = getopt_errors opts in
          if length argv' \<le> i \<or> argv' ! i = ''start'' then
            Inr (0, s, g'', echo @ errs @ [Set_Slomo_Rate rate, Register On_Tb_Trans,
                                    Register On_Interrupt, Tb_Flush])
          else if argv' ! i = ''stop'' then Inr (0, s, g'', echo @ errs @ [Plugin_Reset])
          else Inr (-1, s, g'', echo @ errs)))"

definition slomo_install :: int where
  "slomo_install = 0"

interpretation slomo: option_hygiene "''slomo''" slomo_control
proof
  fix argv s g
  show "argv = [] \<or> hd argv \<noteq> ''slomo'' \<Longrightarrow> \<exists>es. slomo_control argv s g = Inr (-1, s, g, es)"
    by (auto simp: slomo_control_def Let_def)
next
  fix g argv s rc s' g' es
  assume "getopt_fresh g" "slomo_control argv s g = Inr (rc, s', g', es)"
  then show "getopt_fresh g'"
    by (auto simp: slomo_control_def Let_def split_beta bind_res_eq_Inr getopt_fresh_def
        split: if_splits)
next
  fix g argv s
  assume g: "getopt_fresh g"
  show "answer (slomo_control argv s g) = answer (slomo_control argv s getopt_start)"
    using getopt_loop_fresh [OF g, of argv "''r:''"]
    by (simp add: slomo_control_def Let_def answer_def bind_res_def split_beta split: sum.split)
qed

section \<open>Counting\<close>

datatype slomo_event = Tb_Exec nat | Interrupt

definition slomo_step :: "slomo_event \<Rightarrow> slomo_state \<Rightarrow> slomo_state \<times> effect list" where
  "slomo_step e s =
     (case e of
        Tb_Exec n \<Rightarrow> (slomo_vcpu_tb_exec_cb (slomo_vcpu_tb_trans n) s, [])
      | Interrupt \<Rightarrow> slomo_vcpu_interrupt_cb s)"

fun slomo_run :: "slomo_event list \<Rightarrow> slomo_state \<Rightarrow> slomo_state \<times> effect list" where
  "slomo_run [] s = (s, [])"
| "slomo_run (e # es) s =
     (let (s', fs) = slomo_step e s; (s'', gs) = slomo_run es s' in (s'', fs @ gs))"

text \<open>
  The specification over unbounded numbers: the instructions executed between consecutive
  interrupts, and those since the last one.
\<close>

fun interval_counts :: "nat \<Rightarrow> slomo_event list \<Rightarrow> nat list \<times> nat" where
  "interval_counts c [] = ([], c)"
| "interval_counts c (Tb_Exec n # es) = interval_counts (c + n) es"
| "interval_counts c (Interrupt # es) = (let (cs, r) = interval_counts 0 es in (c # cs, r))"

text \<open>C31: The counter is exact modulo \<open>2^64\<close>: whatever blocks are executed and interrupts taken,
  each interrupt prints the number of instructions executed since the previous one, and the
  state holds the number executed since the last.\<close>

theorem slomo_counts_intervals:
  "slomo_run es \<lparr>sl_icount = of_nat c\<rparr> =
     (let (cs, r) = interval_counts c es
      in (\<lparr>sl_icount = of_nat r\<rparr>,
          map (\<lambda>n. Stdout (''icount = '' @ show_u (n mod 2 ^ 64) @ newline)) cs))"
proof (induction c es rule: interval_counts.induct)
  case (2 c n es)
  then show ?case
    by (simp add: slomo_step_def slomo_vcpu_tb_exec_cb_def slomo_vcpu_tb_trans_def split_beta)
next
  case (3 c es)
  then show ?case
    by (simp add: slomo_step_def slomo_vcpu_interrupt_cb_def split_beta Let_def unat_of_nat)
qed simp

lemma interval_counts_total:
  "sum_list (fst (interval_counts c es)) + snd (interval_counts c es) =
     c + sum_list (map (\<lambda>e. case e of Tb_Exec n \<Rightarrow> n | Interrupt \<Rightarrow> 0) es)"
  by (induction c es rule: interval_counts.induct) (auto simp: split_beta)

text \<open>C32: The control entry point for all argument vectors: from a fresh \<open>getopt\<close> a command for
  \<open>slomo\<close> never faults, never touches the counter, leaves \<open>getopt\<close> fresh, and returns
  0 or -1; it changes the instrumentation only when it returns 0.\<close>

theorem slomo_control_total:
  assumes "getopt_fresh g"
  shows "\<exists>rc g' es. slomo_control argv s g = Inr (rc, s, g', es) \<and> getopt_fresh g' \<and>
           rc \<in> {0, -1} \<and>
           (rc = -1 \<longrightarrow> (\<forall>e \<in> set es. (\<exists>t. e = Stdout t) \<or> (\<exists>t. e = Stderr t)))"
proof (cases "argv = [] \<or> hd argv \<noteq> ''slomo''")
  case True
  then show ?thesis using assms by (auto simp: slomo_control_def echo_argv_def)
next
  case False
  then obtain rs g' argv' where "getopt_loop ''r:'' g argv = Inr (rs, g', argv')"
    using getopt_loop_fresh_total [OF assms] by blast
  with False show ?thesis
    by (auto simp: slomo_control_def Let_def echo_argv_def getopt_errors_def getopt_fresh_def)
qed

theorem slomo_control_total_witness:
  "\<exists>rc g' es. slomo_control [''slomo'', ''-r'', ''0x10'', ''stop''] slomo_initial getopt_start =
     Inr (rc, slomo_initial, g', es) \<and> rc \<in> {0, -1}"
  using slomo_control_total [OF getopt_fresh_start, of "[''slomo'', ''-r'', ''0x10'', ''stop'']" slomo_initial]
  by blast

end
