(* ===== verification/Guest.thy ===== *)
theory Guest
  imports Libc Getopt "HOL-Library.Stream"
begin

text \<open>
  \<open>guest/hypersh.h\<close> and \<open>guest/hypersh.c\<close>: the library and the shell that run inside
  the guest and pass commands to the host as the string argument of a magic system call.
\<close>

section \<open>Hypercalls\<close>

definition HYPERCALL_MAGIC :: int where "HYPERCALL_MAGIC = 712"

text \<open>A system call: its number and the C string its first argument points to.\<close>

type_synonym hypercall = "int \<times> string"

definition hypersh_exec :: "string \<Rightarrow> hypercall" where
  "hypersh_exec cmd = (HYPERCALL_MAGIC, cmd)"

text \<open>\<open>formatted\<close> is the expansion of the format and its arguments, before truncation.\<close>

definition hypersh_printf :: "string \<Rightarrow> hypercall" where
  "hypersh_printf formatted = hypersh_exec (''p '' @ snprintf 126 formatted)"

definition trace_start :: hypercall where
  "trace_start = hypersh_exec ''trace start''"

definition trace_stop :: hypercall where
  "trace_stop = hypersh_exec ''trace stop''"

definition trace_detailed :: hypercall where
  "trace_detailed = hypersh_exec ''trace mode detailed''"

definition set_magic :: "u64 \<Rightarrow> hypercall" where
  "set_magic magic_addr = hypersh_exec (snprintf 50 (''trace magic '' @ show_p magic_addr))"

definition seg_create :: "u64 \<Rightarrow> u64 \<Rightarrow> hypercall" where
  "seg_create addr sz =
     hypersh_exec (snprintf 50 (''trace gmm create '' @ show_p addr @ '' 0x'' @ show_x (unat sz)))"

definition seg_assign :: "u64 \<Rightarrow> u32 \<Rightarrow> hypercall" where
  "seg_assign addr policy =
     hypersh_exec (snprintf 50 (''trace gmm assign '' @ show_p addr @ '' '' @ show_d (sint policy)))"

definition seg_delete :: "u64 \<Rightarrow> hypercall" where
  "seg_delete addr = hypersh_exec (snprintf 50 (''trace gmm delete '' @ show_p addr @ '' 0''))"

definition user_msg :: "u64 \<Rightarrow> u64 \<Rightarrow> hypercall" where
  "user_msg payload1 payload2 =
     hypersh_exec (snprintf 50 (''trace gmm message '' @ show_p payload1 @ '' '' @ show_p payload2))"

definition gmm_sync :: hypercall where
  "gmm_sync = hypersh_exec ''trace gmm sync 0 0''"

text \<open>
  \<open>hypercall\<close> is one \<open>cmpxchgl\<close> of the variable \<open>magic\<close> with 0: when \<open>EAX\<close> holds its value, the
  variable becomes 0, otherwise \<open>EAX\<close> becomes its value. The result is the pair of both.
\<close>

definition hypercall_insn :: "u32 \<Rightarrow> u32 \<Rightarrow> u32 \<times> u32" where
  "hypercall_insn eax magic = (if eax = magic then (eax, 0) else (magic, magic))"

text \<open>The second payload is passed as the bit pattern of the double.\<close>

definition user_msg_double :: "u64 \<Rightarrow> u64 \<Rightarrow> hypercall" where
  "user_msg_double payload1 double_bits =
     hypersh_exec (snprintf 50 (''trace gmm message '' @ show_p payload1 @ '' '' @ show_p double_bits))"

section \<open>The shell\<close>

definition is_newline :: "char \<Rightarrow> bool" where
  "is_newline c \<longleftrightarrow> c = CHR 0x0A"

definition fgets :: "nat \<Rightarrow> string \<Rightarrow> (string \<times> string) option" where
  "fgets n inp =
     (if inp = [] then None
      else let upto = takeWhile (\<lambda>c. \<not> is_newline c) inp;
               line = take (n - 1) (take (length upto + 1) inp)
           in Some (line, drop (length line) inp))"

text \<open>\<open>cmd[strcspn(cmd, "\n")] = 0\<close>\<close>

definition chomp :: "string \<Rightarrow> string" where
  "chomp line = cstr (takeWhile (\<lambda>c. \<not> is_newline c) line)"

text \<open>
  One round of the loop: the buffer after \<open>fgets\<close>, which keeps its old content at the end of
  the input, and the rest of the input. The call of \<open>hypersh_exec\<close> is not guarded by the
  \<open>if\<close>, and nothing leaves the loop, so a run is an infinite stream of hypercalls.
\<close>

definition next_cmd :: "string \<Rightarrow> string \<Rightarrow> string" where
  "next_cmd cmd inp = (case fgets 128 inp of Some (line, _) \<Rightarrow> chomp line | None \<Rightarrow> cmd)"

definition next_input :: "string \<Rightarrow> string" where
  "next_input inp = (case fgets 128 inp of Some (_, rest) \<Rightarrow> rest | None \<Rightarrow> inp)"

primcorec shell_loop :: "string \<Rightarrow> string \<Rightarrow> hypercall stream" where
  "shd (shell_loop cmd inp) = hypersh_exec (next_cmd cmd inp)"
| "stl (shell_loop cmd inp) = shell_loop (next_cmd cmd inp) (next_input inp)"

text \<open>\<open>strncpy(cmd, optarg, 127)\<close> into the zeroed buffer of 128.\<close>

definition main_option :: "opt \<Rightarrow> string \<times> bool \<Rightarrow> string \<times> bool" where
  "main_option r st =
     (let (c, optarg, _) = r in
      if c = CHR ''c'' then (take 127 (case optarg of Some a \<Rightarrow> a | None \<Rightarrow> []), False) else st)"

text \<open>\<open>main\<close>: one hypercall for \<open>-c\<close>, otherwise the loop. What \<open>getopt\<close> prints on the guest's own standard
  error stream is left out, as is the prompt.\<close>

definition guest_main :: "string list \<Rightarrow> string \<Rightarrow> fault + (hypercall + hypercall stream)" where
  "guest_main argv inp =
     bind_res (getopt_loop ''c:'' getopt_start argv) (\<lambda>(opts, _, _).
       let (cmd, wait_for_stdin) = fold main_option opts ([], True) in
       if \<not> wait_for_stdin then Inr (Inl (hypersh_exec cmd)) else Inr (Inr (shell_loop cmd inp)))"

section \<open>The shell never stops\<close>

lemma takeWhile_both: "takeWhile P (takeWhile Q xs) = takeWhile (\<lambda>x. Q x \<and> P x) xs"
  by (induction xs) auto

lemma chomp_eq: "chomp line = takeWhile (\<lambda>c. c \<noteq> CHR 0x0A \<and> c \<noteq> NUL) line"
  by (simp add: chomp_def cstr_def is_newline_def takeWhile_both)

text \<open>What \<open>fgets\<close> cuts off: the first piece, which ends with the first newline unless it is cut
  at 127 bytes or at the end of the input.\<close>

lemma fgets_piece:
  assumes "inp \<noteq> []"
  obtains p rest where "fgets 128 inp = Some (p, rest)" "inp = p @ rest" "p \<noteq> []" "length p \<le> 127"
    "CHR 0x0A \<notin> set (butlast p)" "rest \<noteq> [] \<longrightarrow> last p = CHR 0x0A \<or> length p = 127"
proof -
  let ?u = "takeWhile (\<lambda>c. \<not> is_newline c) inp"
  define p where "p = take 127 (take (length ?u + 1) inp)"
  define rest where "rest = drop (length p) inp"
  have u: "CHR 0x0A \<notin> set ?u" by (auto simp: is_newline_def dest!: set_takeWhileD)
  obtain v where v: "inp = ?u @ v" "v = [] \<or> hd v = CHR 0x0A"
    using takeWhile_dropWhile_id [of "\<lambda>c. \<not> is_newline c" inp] hd_dropWhile [of "\<lambda>c. \<not> is_newline c" inp]
    by (metis is_newline_def)
  have p: "p = (if length ?u < 127 \<and> v \<noteq> [] then ?u @ [CHR 0x0A] else take 127 ?u)"
  proof (cases v)
    case Nil
    then have "take (length ?u + 1) inp = ?u" by (subst v(1)) simp
    with Nil show ?thesis by (simp add: p_def)
  next
    case (Cons c w)
    with v(2) have "take (length ?u + 1) inp = ?u @ [CHR 0x0A]" by (subst v(1)) simp
    with Cons show ?thesis by (simp add: p_def)
  qed
  show thesis
  proof (rule that [of p rest])
    show "fgets 128 inp = Some (p, rest)" using assms by (simp add: fgets_def Let_def p_def rest_def)
    show "inp = p @ rest" unfolding p_def rest_def by (simp add: min_def)
    show "p \<noteq> []" "length p \<le> 127" using assms by (simp_all add: p_def)
    show "CHR 0x0A \<notin> set (butlast p)" using u unfolding p by (auto dest: in_set_takeD in_set_butlastD)
    have "length p < length ?u + length v" if "rest \<noteq> []"
      using that arg_cong [OF v(1), of length] by (simp add: rest_def)
    then show "rest \<noteq> [] \<longrightarrow> last p = CHR 0x0A \<or> length p = 127" unfolding p by (auto split: if_splits)
  qed
qed

lemma shell_loop_eof: "shell_loop cmd [] = sconst (hypersh_exec cmd)"
proof -
  have "shell_loop cmd [] !! n = hypersh_exec cmd" for n
    by (induction n) (simp_all add: next_cmd_def next_input_def fgets_def)
  then show ?thesis by (auto simp: sconst_alt sset_range)
qed

text \<open>C37: What the shell does with any input: it cuts the input into pieces, each of which ends with the first
  newline or after 127 bytes (or at the end of the input), passes each piece, without its newline and up to its
  first NUL, to the magic system call, in order, and then, at the end of the input, passes
  the last command again for ever; it never stops.\<close>

theorem shell_loop_commands:
  "\<exists>ps. concat ps = inp \<and>
     (\<forall>p \<in> set ps. p \<noteq> [] \<and> length p \<le> 127 \<and> CHR 0x0A \<notin> set (butlast p)) \<and>
     (\<forall>p \<in> set (butlast ps). last p = CHR 0x0A \<or> length p = 127) \<and>
     shell_loop cmd inp =
       map (\<lambda>p. (712, takeWhile (\<lambda>c. c \<noteq> CHR 0x0A \<and> c \<noteq> NUL) p)) ps @-
       sconst (712, last (cmd # map (takeWhile (\<lambda>c. c \<noteq> CHR 0x0A \<and> c \<noteq> NUL)) ps))"
proof (induction "length inp" arbitrary: inp cmd rule: less_induct)
  case less
  show ?case
  proof (cases "inp = []")
    case True
    then show ?thesis by (intro exI [of _ "[]"]) (simp add: shell_loop_eof hypersh_exec_def HYPERCALL_MAGIC_def)
  next
    case False
    then obtain p rest where p: "fgets 128 inp = Some (p, rest)" "inp = p @ rest" "p \<noteq> []" "length p \<le> 127"
      "CHR 0x0A \<notin> set (butlast p)" "rest \<noteq> [] \<longrightarrow> last p = CHR 0x0A \<or> length p = 127"
      by (rule fgets_piece)
    let ?c = "takeWhile (\<lambda>c. c \<noteq> CHR 0x0A \<and> c \<noteq> NUL) p"
    have "length rest < length inp" using p(2,3) by simp
    from less [OF this, of ?c] obtain ps where ps: "concat ps = rest"
      "\<forall>p \<in> set ps. p \<noteq> [] \<and> length p \<le> 127 \<and> CHR 0x0A \<notin> set (butlast p)"
      "\<forall>p \<in> set (butlast ps). last p = CHR 0x0A \<or> length p = 127"
      "shell_loop ?c rest = map (\<lambda>p. (712, takeWhile (\<lambda>c. c \<noteq> CHR 0x0A \<and> c \<noteq> NUL) p)) ps @-
         sconst (712, last (?c # map (takeWhile (\<lambda>c. c \<noteq> CHR 0x0A \<and> c \<noteq> NUL)) ps))" by blast
    have "shell_loop cmd inp = (712, ?c) ## shell_loop ?c rest"
      using p(1) by (intro stream.expand)
        (simp add: next_cmd_def next_input_def chomp_eq hypersh_exec_def HYPERCALL_MAGIC_def)
    with p ps show ?thesis by (intro exI [of _ "p # ps"]) auto
  qed
qed


theorem shell_loop_commands_witness:
  "shell_loop [] [CHR ''a'', CHR 0x0A, CHR ''b''] = (712, ''a'') ## sconst (712, ''b'')"
proof -
  obtain ps where ps: "concat ps = [CHR ''a'', CHR 0x0A, CHR ''b'']"
     "\<forall>p \<in> set ps. p \<noteq> [] \<and> length p \<le> 127 \<and> CHR 0x0A \<notin> set (butlast p)"
     "\<forall>p \<in> set (butlast ps). last p = CHR 0x0A \<or> length p = 127"
     "shell_loop [] [CHR ''a'', CHR 0x0A, CHR ''b''] =
       map (\<lambda>p. (712, takeWhile (\<lambda>c. c \<noteq> CHR 0x0A \<and> c \<noteq> NUL) p)) ps @-
       sconst (712, last ([] # map (takeWhile (\<lambda>c. c \<noteq> CHR 0x0A \<and> c \<noteq> NUL)) ps))"
    using shell_loop_commands [of "[CHR ''a'', CHR 0x0A, CHR ''b'']" "[]"] by blast
  have "ps = [[CHR ''a'', CHR 0x0A], ''b'']"
  proof (cases ps)
    case (Cons p qs)
    have "p = [CHR ''a'', CHR 0x0A]" "concat qs = ''b''"
      using ps(1-3) Cons by (cases qs; auto simp: append_eq_Cons_conv)+
    then show ?thesis using ps(1-3) Cons
      by (cases qs) (auto simp: append_eq_Cons_conv)
  qed (use ps(1) in simp)
  moreover have "(712 :: int, ''b'') ## sconst (712, ''b'') = sconst (712, ''b'')"
    by (subst (2) siterate.code) simp
  ultimately show ?thesis using ps(4) by simp
qed

section \<open>The command strings\<close>

text \<open>The message buffer of \<open>hypersh_printf\<close> is never overrun: whatever the format expands to,
  the command starts with \<open>p\<close> and a blank, holds a prefix of the text, and with its
  terminator fits in the 128 bytes of the buffer.\<close>

lemma hypersh_printf_fits:
  "\<exists>msg. hypersh_printf formatted = (712, ''p '' @ msg) \<and> length (''p '' @ msg) + 1 \<le> 128 \<and>
     msg = take 125 (cstr formatted) \<and> NUL \<notin> set msg"
  by (auto simp: hypersh_printf_def hypersh_exec_def HYPERCALL_MAGIC_def snprintf_def
      NUL_notin_cstr dest: in_set_takeD)

fun join :: "string list \<Rightarrow> string" where
  "join [] = []"
| "join [w] = w"
| "join (w # v # ws) = w @ '' '' @ join (v # ws)"

lemma show_x_length: "0 < k \<Longrightarrow> n < 16 ^ k \<Longrightarrow> length (show_x n) \<le> k"
  by (simp add: show_x_def length_show_base)

lemma show_p_length: "0 < k \<Longrightarrow> unat p < 16 ^ k \<Longrightarrow> length (show_p p) \<le> max 5 (k + 2)"
  using show_x_length [of k "unat p"] by (auto simp: show_p_def)

lemma NUL_notin_show_base: "2 \<le> b \<Longrightarrow> b \<le> 36 \<Longrightarrow> NUL \<notin> set (show_base b n)"
  by (auto dest!: set_show_base) (metis digit_char_plain(4) less_le_trans)

lemma NUL_notin_show: "NUL \<notin> set (show_x n)" "NUL \<notin> set (show_u n)" "NUL \<notin> set (show_d i)"
  "NUL \<notin> set (show_p p)"
  by (auto simp: show_x_def show_u_def show_d_def show_p_def NUL_notin_show_base)

end
