(* ===== verification/Hypersh.thy ===== *)
theory Hypersh
  imports Guest Plugin_Api
begin

text \<open>
  \<open>host/hypersh.cc\<close>: the plugin that catches the magic system call, reads the command from
  guest memory, splits it into words and passes it to the plugin named by the first word.
\<close>

section \<open>The dispatcher\<close>

text \<open>
  What it asks of its surroundings: the build flag \<open>DEBUG\<close>, guest memory, \<open>g_shell_parse_argv\<close>,
  the plugin registry, and \<open>qemu_plugin_send_control\<close>, which runs the control function of
  another plugin on the state \<open>'w\<close> of all of them.
\<close>

record 'w shell_env =
  he_debug :: bool
  he_read :: "u64 \<Rightarrow> string option"
  he_parse :: "string \<Rightarrow> string list option"
  he_find_id :: "string \<Rightarrow> u64"
  he_id_null :: u64
  he_send :: "u64 \<Rightarrow> nat \<Rightarrow> string list \<Rightarrow> 'w \<Rightarrow> fault + (int \<times> 'w \<times> effect list)"

definition vcpu_text :: "nat \<Rightarrow> string" where
  "vcpu_text i = ''['' @ show_u i @ '']''"

definition so_name :: "'w shell_env \<Rightarrow> string \<Rightarrow> string" where
  "so_name env name = ''/lib'' @ name @ (if he_debug env then ''.sod'' else ''.so'')"

definition run_command ::
    "'w shell_env \<Rightarrow> nat \<Rightarrow> string \<Rightarrow> string list \<Rightarrow> 'w \<Rightarrow> fault + ('w \<times> effect list)" where
  "run_command env cpu buf argv w =
     (if hd argv = ''p'' then Inr (w, [Stdout (vcpu_text cpu @ '' '' @ buf)])
      else
        let echo = Stdout (vcpu_text cpu @ '' guest> '' @ buf @ newline) in
        if hd argv = ''debug'' then
          let pmem_id = he_find_id env ''/libpmem.so'' in
          bind_res (he_send env pmem_id cpu (tl argv) w) (\<lambda>(rc, w', es).
            Inr (w', [echo, Stdout (show_u (unat pmem_id) @ newline)] @ es))
        else
          let target_id = he_find_id env (so_name env (hd argv)) in
          if target_id = he_id_null env
          then Inr (w, [echo, Stderr (''Unknown/Unloaded plugin '' @ hd argv @ newline)])
          else bind_res (he_send env target_id cpu argv w) (\<lambda>(rc, w', es).
            Inr (w', echo # es @
              (if rc = -1 then [Stderr (''Failed sending control to '' @ hd argv @ newline)] else []))))"

definition vcpu_syscall_cb ::
    "'w shell_env \<Rightarrow> nat \<Rightarrow> int \<Rightarrow> u64 \<Rightarrow> 'w \<Rightarrow> fault + ('w \<times> effect list)" where
  "vcpu_syscall_cb env cpu num a1 w =
     (if num \<noteq> HYPERCALL_MAGIC then Inr (w, [])
      else case he_read env a1 of
        None \<Rightarrow> Inr (w, [Stderr (''Fail to read guest virtual memory 0x'' @ show_x (unat a1) @ newline)])
      | Some bytes \<Rightarrow>
          let buf = cstr (take 127 bytes) in
          (case he_parse env buf of
             None \<Rightarrow> Inr (w, [])
           | Some argv \<Rightarrow> if argv = [] then Inr (w, []) else run_command env cpu buf argv w))"

definition hypersh_install :: "int \<times> effect list" where
  "hypersh_install = (0, [Register On_Syscall])"

section \<open>Words\<close>

text \<open>
  A word without blanks, quotes, backslashes or comment signs. \<open>g_shell_parse_argv\<close> splits a line
  of such words at its blanks.
\<close>

definition plain_word :: "string \<Rightarrow> bool" where
  "plain_word w \<longleftrightarrow> w \<noteq> [] \<and> (\<forall>c \<in> set w. \<not> is_space c \<and> c \<noteq> NUL \<and> c \<notin> {CHR 0x22, CHR 0x27, CHR 0x5C, CHR ''#''})"

definition splits_words :: "(string \<Rightarrow> string list option) \<Rightarrow> bool" where
  "splits_words parse \<longleftrightarrow> (\<forall>ws. ws \<noteq> [] \<longrightarrow> (\<forall>w \<in> set ws. plain_word w) \<longrightarrow> parse (join ws) = Some ws)"

lemma splits_wordsD:
  "splits_words parse \<Longrightarrow> ws \<noteq> [] \<Longrightarrow> \<forall>w \<in> set ws. plain_word w \<Longrightarrow> parse (join ws) = Some ws"
  by (simp add: splits_words_def)

text \<open>The guest's memory at the argument of the system call holds the command's C string.\<close>

definition holds_command :: "'w shell_env \<Rightarrow> u64 \<Rightarrow> string \<Rightarrow> bool" where
  "holds_command env a1 cmd \<longleftrightarrow> (\<exists>rest. he_read env a1 = Some (cmd @ NUL # rest))"

lemma set_join: "c \<in> set (join ws) \<Longrightarrow> c = CHR '' '' \<or> (\<exists>w \<in> set ws. c \<in> set w)"
  by (induction ws rule: join.induct) auto

lemma NUL_notin_join: "\<forall>w \<in> set ws. plain_word w \<Longrightarrow> NUL \<notin> set (join ws)"
  by (auto simp: plain_word_def dest!: set_join)

lemma read_command:
  assumes "he_read env a1 = Some (cmd @ NUL # rest)" "NUL \<notin> set cmd" "length cmd < 127"
  shows "vcpu_syscall_cb env cpu HYPERCALL_MAGIC a1 w =
    (case he_parse env cmd of None \<Rightarrow> Inr (w, [])
     | Some argv \<Rightarrow> if argv = [] then Inr (w, []) else run_command env cpu cmd argv w)"
proof -
  have "take 127 (cmd @ NUL # rest) = cmd @ NUL # take (126 - length cmd) rest"
    using assms(3) by (simp add: take_Cons')
  then show ?thesis using assms(1,2) by (simp add: vcpu_syscall_cb_def cstr_terminated)
qed

text \<open>C11: A command of plain words that fits in the buffer reaches the plugin its first word names, and
  only that plugin, with exactly those words as its arguments; the command is echoed before,
  and the failure answer -1 is reported after; an unknown name changes nothing but says so.\<close>

theorem hypersh_routes:
  assumes "splits_words (he_parse env)" "ws \<noteq> []" "\<forall>w \<in> set ws. plain_word w" "length (join ws) < 127"
    "holds_command env a1 (join ws)" "hd ws \<notin> {''p'', ''debug''}"
  shows "vcpu_syscall_cb env cpu 712 a1 w =
    (let echo = Stdout (vcpu_text cpu @ '' guest> '' @ join ws @ newline);
         target = he_find_id env (so_name env (hd ws)) in
     if target = he_id_null env
     then Inr (w, [echo, Stderr (''Unknown/Unloaded plugin '' @ hd ws @ newline)])
     else case he_send env target cpu ws w of
       Inl f \<Rightarrow> Inl f
     | Inr (rc, w', es) \<Rightarrow> Inr (w', [echo] @ es @
         (if rc = -1 then [Stderr (''Failed sending control to '' @ hd ws @ newline)] else [])))"
proof -
  from assms(5) obtain rest where "he_read env a1 = Some (join ws @ NUL # rest)"
    by (auto simp: holds_command_def)
  from read_command [OF this NUL_notin_join [OF assms(3)] assms(4), of cpu w]
    splits_wordsD [OF assms(1-3)] assms(2,6)
  show ?thesis
    by (auto simp: HYPERCALL_MAGIC_def run_command_def Let_def bind_res_def split: sum.splits)
qed

text \<open>A word splitter for concrete commands.\<close>

fun split_blanks :: "string \<Rightarrow> string \<Rightarrow> string list" where
  "split_blanks acc [] = (if acc = [] then [] else [rev acc])"
| "split_blanks acc (c # cs) =
     (if c = CHR '' '' then (if acc = [] then [] else [rev acc]) @ split_blanks [] cs
      else split_blanks (c # acc) cs)"

definition demo_parse :: "string \<Rightarrow> string list option" where
  "demo_parse s = (let ws = split_blanks [] s in if ws = [] then None else Some ws)"

lemma split_blanks_word:
  "CHR '' '' \<notin> set w \<Longrightarrow> split_blanks acc (w @ s) = split_blanks (rev w @ acc) s"
  by (induction w arbitrary: acc) auto

lemma split_blanks_last: "CHR '' '' \<notin> set w \<Longrightarrow> split_blanks acc w = (if rev w @ acc = [] then [] else [rev acc @ w])"
  using split_blanks_word [of w acc "[]"] by simp

lemma split_blanks_join:
  "\<forall>w \<in> set ws. w \<noteq> [] \<and> CHR '' '' \<notin> set w \<Longrightarrow> split_blanks [] (join ws) = ws"
proof (induction ws rule: join.induct)
  case (2 w)
  then show ?case using split_blanks_last [of w "[]"] by simp
next
  case (3 w v ws)
  then have "split_blanks [] (join (w # v # ws)) = split_blanks (rev w) ('' '' @ join (v # ws))"
    using split_blanks_word [of w "[]"] by simp
  also have "\<dots> = w # split_blanks [] (join (v # ws))" using "3.prems" by simp
  also have "split_blanks [] (join (v # ws)) = v # ws" using "3.prems" by (intro "3.IH") simp
  finally show ?case .
qed simp

lemma is_space_blank: "is_space (CHR '' '')"
  by (simp add: is_space_def)

lemma plain_word_blank: "plain_word w \<Longrightarrow> w \<noteq> [] \<and> CHR '' '' \<notin> set w"
  using is_space_blank unfolding plain_word_def by blast

lemma demo_parse_splits: "splits_words demo_parse"
  unfolding splits_words_def
proof (intro allI impI)
  fix ws :: "string list"
  assume "ws \<noteq> []" "\<forall>w \<in> set ws. plain_word w"
  then have "split_blanks [] (join ws) = ws"
    by (intro split_blanks_join) (auto dest: plain_word_blank)
  with \<open>ws \<noteq> []\<close> show "demo_parse (join ws) = Some ws" by (simp add: demo_parse_def)
qed

text \<open>A shell whose only plugin is \<open>trace\<close>, which logs its commands.\<close>

definition demo_shell :: "string \<Rightarrow> string list list shell_env" where
  "demo_shell cmd = \<lparr>he_debug = False, he_read = (\<lambda>_. Some (cmd @ NUL # replicate (126 - length cmd) NUL)),
     he_parse = demo_parse, he_find_id = (\<lambda>n. if n = ''/libtrace.so'' then 1 else 0), he_id_null = 0,
     he_send = (\<lambda>_ _ argv w. Inr (0, argv # w, []))\<rparr>"

lemma demo_words: "plain_word ''trace''" "plain_word ''start''"
  by code_simp+

theorem hypersh_routes_witness:
  "vcpu_syscall_cb (demo_shell ''trace start'') 1 712 0x7000 [] =
     Inr ([[''trace'', ''start'']], [Stdout (vcpu_text 1 @ '' guest> '' @ ''trace start'' @ newline)])"
proof -
  have "holds_command (demo_shell ''trace start'') 0x7000 (join [''trace'', ''start''])"
    by (simp add: holds_command_def demo_shell_def)
  from hypersh_routes [OF _ _ _ _ this, of 1 "[]"] demo_words demo_parse_splits
  show ?thesis by (simp add: demo_shell_def so_name_def)
qed

end
