(* ===== verification/Bbv_Count.thy ===== *)
theory Bbv_Count
  imports Prelude "HOL-Library.Multiset"
begin

text \<open>
  \<open>host/trace/bbv_count.cc\<close> and \<open>bbv_count.h\<close>: basic-block vectors, projected on 16
  dimensions by pseudo-random weights that are regenerated from the block's address.
\<close>

section \<open>The generator\<close>

definition RNG_A :: u64 where "RNG_A = 0x5DEECE66D"
definition RNG_C :: u64 where "RNG_C = 0xB"
definition RNG_M :: u64 where "RNG_M = push_bit 48 1 - 1"

text \<open>\<open>rng_next\<close> updates the state it is given by reference and returns the upper bits.\<close>

definition rng_next :: "u64 \<Rightarrow> u64 \<times> u64" where
  "rng_next state =
     (let state' = (RNG_A * state + RNG_C) AND RNG_M in (state', drop_bit 16 state'))"

definition rng_seed :: "u64 \<Rightarrow> u64" where
  "rng_seed seed = push_bit 16 seed + 0x330E"

section \<open>The vector\<close>

definition NUM_BBV :: nat where "NUM_BBV = 16"

record bbv =
  m_instrs :: u64
  m_bbv_counts :: "u64 list"

definition bbv_new :: bbv where
  "bbv_new = \<lparr>m_instrs = 0, m_bbv_counts = replicate NUM_BBV 0\<rparr>"

definition add_weight :: "nat \<Rightarrow> u64 \<Rightarrow> u64 \<Rightarrow> u64 list \<Rightarrow> fault + u64 list" where
  "add_weight i weight n xs =
     bind_res (vec_at xs i) (\<lambda>x. Inr (xs[i := x + (weight AND 0xFFFF) * n]))"

text \<open>
  The loop over \<open>i = 0, 4, 8, 12\<close> with its four unrolled generators \<open>s0\<close> to \<open>s3\<close>.
\<close>

fun count_loop ::
    "nat list \<Rightarrow> u64 \<Rightarrow> u64 \<Rightarrow> u64 \<Rightarrow> u64 \<Rightarrow> u64 \<Rightarrow> u64 list \<Rightarrow> fault + u64 list" where
  "count_loop [] n s0 s1 s2 s3 xs = Inr xs"
| "count_loop (i # is) n s0 s1 s2 s3 xs =
     (let (s0', w0) = rng_next s0 in
      bind_res (add_weight i w0 n xs) (\<lambda>xs.
      let (s1', w1) = rng_next s1 in
      bind_res (add_weight (i + 1) w1 n xs) (\<lambda>xs.
      let (s2', w2) = rng_next s2 in
      bind_res (add_weight (i + 2) w2 n xs) (\<lambda>xs.
      let (s3', w3) = rng_next s3 in
      bind_res (add_weight (i + 3) w3 n xs) (\<lambda>xs.
        count_loop is n s0' s1' s2' s3' xs)))))"

definition loop_indices :: "nat list" where
  "loop_indices = map (\<lambda>k. 4 * k) [0..<NUM_BBV div 4]"

definition bbv_count :: "u64 \<Rightarrow> u64 \<Rightarrow> bbv \<Rightarrow> fault + bbv" where
  "bbv_count address n b =
     bind_res (count_loop loop_indices n (rng_seed address) (rng_seed (address + 1))
                 (rng_seed (address + 2)) (rng_seed (address + 3)) (m_bbv_counts b)) (\<lambda>xs.
       Inr \<lparr>m_instrs = m_instrs b + n, m_bbv_counts = xs\<rparr>)"

fun clear_loop :: "nat list \<Rightarrow> u64 list \<Rightarrow> fault + u64 list" where
  "clear_loop [] xs = Inr xs"
| "clear_loop (i # is) xs = bind_res (vec_at xs i) (\<lambda>_. clear_loop is (xs[i := 0]))"

definition bbv_clear :: "bbv \<Rightarrow> fault + bbv" where
  "bbv_clear b =
     bind_res (clear_loop [0..<NUM_BBV] (m_bbv_counts b)) (\<lambda>xs.
       Inr \<lparr>m_instrs = 0, m_bbv_counts = xs\<rparr>)"

text \<open>\<open>at\<close> throws for an index outside the vector.\<close>

definition getDimension :: "nat \<Rightarrow> bbv \<Rightarrow> fault + u64" where
  "getDimension dim b = vec_at (m_bbv_counts b) dim"

definition getInstructionCount :: "bbv \<Rightarrow> u64" where
  "getInstructionCount b = m_instrs b"

section \<open>The projection the comment describes\<close>

text \<open>
  The projection matrix: dimension \<open>d\<close> of a block uses draw \<open>d div 4\<close> of the generator
  seeded with the address plus \<open>d mod 4\<close>.
\<close>

primrec rng_state :: "nat \<Rightarrow> u64 \<Rightarrow> u64" where
  "rng_state 0 s = s"
| "rng_state (Suc k) s = fst (rng_next (rng_state k s))"

definition bbv_weight :: "u64 \<Rightarrow> nat \<Rightarrow> u64" where
  "bbv_weight address d =
     snd (rng_next (rng_state (d div 4) (rng_seed (address + of_nat (d mod 4))))) AND 0xFFFF"

definition bbv_ok :: "bbv \<Rightarrow> bool" where
  "bbv_ok b \<longleftrightarrow> length (m_bbv_counts b) = NUM_BBV"

lemma add_weight_ok:
  "i < length xs \<Longrightarrow> add_weight i w c xs = Inr (xs[i := xs ! i + (w AND 0xFFFF) * c])"
  by (simp add: add_weight_def)

lemma loop_indices_eq: "loop_indices = [0, 4, 8, 12]"
  by (simp add: loop_indices_def NUM_BBV_def upt_rec)

lemma count_loop_step:
  "i + 3 < length xs \<Longrightarrow> count_loop (i # is) n s0 s1 s2 s3 xs =
     count_loop is n (fst (rng_next s0)) (fst (rng_next s1)) (fst (rng_next s2)) (fst (rng_next s3))
       (xs[i := xs ! i + (snd (rng_next s0) AND 0xFFFF) * n,
           i + 1 := xs ! (i + 1) + (snd (rng_next s1) AND 0xFFFF) * n,
           i + 2 := xs ! (i + 2) + (snd (rng_next s2) AND 0xFFFF) * n,
           i + 3 := xs ! (i + 3) + (snd (rng_next s3) AND 0xFFFF) * n])"
  by (simp add: split_beta Let_def add_weight_ok)

lemma rng_state_num:
  "rng_state 1 s = fst (rng_next s)"
  "rng_state 2 s = fst (rng_next (fst (rng_next s)))"
  "rng_state 3 s = fst (rng_next (fst (rng_next (fst (rng_next s)))))"
  by (simp_all add: numeral_eq_Suc)

text \<open>C33: The unrolled loop with its four interleaved generators computes the projection: for every
  vector of 16 counters, \<open>count\<close> does not fault, adds the block's instructions to the
  total, and adds to every dimension the block's weight in that dimension times the
  instructions.\<close>

theorem bbv_count_projects:
  assumes "bbv_ok b"
  shows "bbv_count address n b =
    Inr \<lparr>m_instrs = m_instrs b + n,
         m_bbv_counts = map (\<lambda>d. m_bbv_counts b ! d + bbv_weight address d * n) [0..<NUM_BBV]\<rparr>"
proof -
  let ?xs = "m_bbv_counts b"
  have len: "length ?xs = 16" using assms by (simp add: bbv_ok_def NUM_BBV_def)
  then obtain a0 a1 a2 a3 a4 a5 a6 a7 a8 a9 b0 b1 b2 b3 b4 b5 where
    xs: "?xs = [a0, a1, a2, a3, a4, a5, a6, a7, a8, a9, b0, b1, b2, b3, b4, b5]"
    by (auto simp: numeral_eq_Suc length_Suc_conv)
  have upt: "[0..<NUM_BBV] = [0, 1, 2, 3, 4, 5, 6, 7, 8, 9, 10, 11, 12, 13, 14, 15]"
    by (simp add: NUM_BBV_def upt_rec)
  show ?thesis
    unfolding bbv_count_def loop_indices_eq upt xs
    by (simp add: count_loop_step bbv_weight_def rng_state_num [unfolded One_nat_def]
        del: count_loop.simps(2))
qed

theorem bbv_count_projects_witness:
  "bbv_ok bbv_new \<and> bbv_count 0x400000 7 bbv_new =
    Inr \<lparr>m_instrs = 7,
         m_bbv_counts = map (\<lambda>d. m_bbv_counts bbv_new ! d + bbv_weight 0x400000 d * 7) [0..<NUM_BBV]\<rparr>"
proof -
  have ok: "bbv_ok bbv_new" by (simp add: bbv_ok_def bbv_new_def)
  show ?thesis using bbv_count_projects [OF ok] ok by (simp add: bbv_new_def)
qed

section \<open>Sequences of blocks\<close>

type_synonym block_exec = "u64 \<times> u64"

definition bbv_step :: "block_exec \<Rightarrow> bbv stmt" where
  "bbv_step = (\<lambda>(address, n). bbv_count address n)"

interpretation bbv: safe_machine bbv_step "\<lambda>_. True" bbv_ok
proof
  fix e :: block_exec and s s'
  assume "bbv_ok s" "bbv_step e s = Inr s'"
  then show "bbv_ok s'" by (cases e) (auto simp: bbv_step_def bbv_count_projects bbv_ok_def)
next
  fix e :: block_exec and s
  assume "bbv_ok s"
  then show "\<exists>s'. bbv_step e s = Inr s'" by (cases e) (simp add: bbv_step_def bbv_count_projects)
qed

lemma bbv_run_sum:
  "bbv_ok b \<Longrightarrow> run bbv_step xs b =
     Inr \<lparr>m_instrs = m_instrs b + sum_list (map snd xs),
          m_bbv_counts = map (\<lambda>d. m_bbv_counts b ! d +
              sum_list (map (\<lambda>(a, n). bbv_weight a d * n) xs)) [0..<NUM_BBV]\<rparr>"
proof (induction xs arbitrary: b)
  case Nil
  then have "map (\<lambda>d. m_bbv_counts b ! d) [0..<NUM_BBV] = m_bbv_counts b"
    using map_nth [of "m_bbv_counts b"] by (simp add: bbv_ok_def)
  then show ?case by simp
next
  case (Cons x xs)
  obtain a n where x: "x = (a, n)" by (cases x)
  let ?b = "\<lparr>m_instrs = m_instrs b + n,
       m_bbv_counts = map (\<lambda>d. m_bbv_counts b ! d + bbv_weight a d * n) [0..<NUM_BBV]\<rparr>"
  have "bbv_ok ?b" by (simp add: bbv_ok_def)
  from Cons.IH [OF this] Cons.prems show ?case
    by (simp add: x bbv_step_def bbv_count_projects add.assoc)
qed

text \<open>C34: The vector depends only on which blocks were executed how often, not on their order: any
  two orders of the same calls of \<open>count\<close> end, without a fault, in the same state.\<close>

theorem bbv_order_irrelevant:
  assumes "bbv_ok b" "mset xs = mset ys"
  shows "\<exists>b'. run bbv_step xs b = Inr b' \<and> run bbv_step ys b = Inr b' \<and> bbv_ok b'"
proof -
  have eq: "sum_list (map f xs) = sum_list (map f ys)" for f :: "block_exec \<Rightarrow> u64"
    using assms(2) by (metis mset_map sum_mset_sum_list)
  obtain b' where b': "run bbv_step xs b = Inr b'" "bbv_ok b'"
    using bbv.run_safe [of xs b] assms(1) by auto
  moreover have "run bbv_step ys b = run bbv_step xs b"
    using assms(1) by (simp add: bbv_run_sum eq)
  ultimately show ?thesis by simp
qed

theorem bbv_order_irrelevant_witness:
  "\<exists>b'. run bbv_step [(0x400000, 3), (0x400010, 5)] bbv_new = Inr b' \<and>
        run bbv_step [(0x400010, 5), (0x400000, 3)] bbv_new = Inr b'"
proof -
  have "bbv_ok bbv_new" by (simp add: bbv_ok_def bbv_new_def)
  from bbv_order_irrelevant [OF this, of "[(0x400000, 3), (0x400010, 5)]" "[(0x400010, 5), (0x400000, 3)]"]
  show ?thesis by auto
qed

lemma clear_loop_from:
  "i \<le> length xs \<Longrightarrow> clear_loop [i..<length xs] xs = Inr (take i xs @ replicate (length xs - i) 0)"
proof (induction "length xs - i" arbitrary: i xs)
  case (Suc k)
  then have i: "i < length xs" by simp
  have "clear_loop [Suc i..<length (xs[i := 0])] (xs[i := 0]) =
      Inr (take (Suc i) (xs[i := 0]) @ replicate (length (xs[i := 0]) - Suc i) 0)"
    using Suc by (intro Suc.hyps(1)) auto
  moreover have "replicate (length xs - i) (0 :: u64) = 0 # replicate (length xs - Suc i) 0"
    using i by (simp add: Suc_diff_Suc flip: replicate_Suc)
  ultimately show ?case
    using i by (simp add: upt_conv_Cons take_Suc_conv_app_nth)
qed simp

text \<open>C35: \<open>clear\<close> undoes any history: after any sequence of calls of \<open>count\<close> on a new vector,
  \<open>clear\<close> restores exactly the newly constructed vector.\<close>

theorem bbv_clear_restores:
  "bind_res (run bbv_step xs bbv_new) bbv_clear = Inr bbv_new"
proof -
  have "bbv_ok bbv_new" by (simp add: bbv_ok_def bbv_new_def)
  then obtain b where b: "run bbv_step xs bbv_new = Inr b" "bbv_ok b"
    using bbv.run_safe [of xs bbv_new] by auto
  then have "bbv_clear b = Inr bbv_new"
    using clear_loop_from [of 0 "m_bbv_counts b"]
    by (simp add: bbv_clear_def bbv_ok_def bbv_new_def)
  with b show ?thesis by simp
qed

section \<open>The generator is drand48\<close>

lemma RNG_M_mask: "RNG_M = mask 48"
  by (simp add: RNG_M_def mask_eq_decr_exp push_bit_eq_mult)

lemma unat_rng_next_state:
  "unat (fst (rng_next s)) = (0x5DEECE66D * unat s + 0xB) mod 2 ^ 48"
proof -
  have "unat (RNG_A * s + RNG_C) = (0x5DEECE66D * unat s + 0xB) mod 2 ^ 64"
    by (simp add: RNG_A_def RNG_C_def unat_word_ariths mod_simps)
  moreover have "unat (fst (rng_next s)) = unat (RNG_A * s + RNG_C) mod 2 ^ 48"
    by (simp add: rng_next_def RNG_M_mask Let_def flip: take_bit_eq_mask)
       (simp add: unsigned_take_bit_eq take_bit_eq_mod unat_mod)
  ultimately show ?thesis by (simp add: mod_mod_cancel)
qed

text \<open>C36: The inlined generator is the 48-bit linear congruential generator of \<open>drand48\<close>: computed in
  64-bit words that wrap around, the state is \<open>(0x5DEECE66D * s + 0xB) mod 2^48\<close> and the
  draw is its upper 32 bits; weights have 16 bits.\<close>

theorem rng_next_is_drand48:
  "unat (fst (rng_next s)) = (0x5DEECE66D * unat s + 0xB) mod 2 ^ 48 \<and>
   unat (snd (rng_next s)) = unat (fst (rng_next s)) div 2 ^ 16 \<and>
   unat (snd (rng_next s)) < 2 ^ 32 \<and> unat (bbv_weight address d) < 2 ^ 16"
proof -
  have 1: "unat (snd (rng_next s)) = unat (fst (rng_next s)) div 2 ^ 16"
    by (simp add: rng_next_def Let_def unsigned_drop_bit_eq drop_bit_eq_div unat_div)
  have "unat (fst (rng_next s)) < 2 ^ 32 * 2 ^ 16"
    by (simp add: unat_rng_next_state)
  then have "unat (snd (rng_next s)) < 2 ^ 32"
    unfolding 1 by (rule less_mult_imp_div_less)
  moreover have "unat (bbv_weight address d) < 2 ^ 16"
  proof -
    have "(0xFFFF :: u64) = mask 16" by (simp add: mask_eq_decr_exp)
    then have "bbv_weight address d =
        take_bit 16 (snd (rng_next (rng_state (d div 4) (rng_seed (address + of_nat (d mod 4))))))"
      unfolding bbv_weight_def by (simp only: take_bit_eq_mask)
    then show ?thesis by (simp add: unsigned_take_bit_eq del: power_numeral)
  qed
  ultimately show ?thesis using 1 unat_rng_next_state by blast
qed

end
