(* ===== verification/Trace_State.thy ===== *)
theory Trace_State
  imports Plugin_Api Bbv_Count
begin

text \<open>
  The state of the trace recorder (\<open>host/trace/threads.h\<close>, \<open>globals.h\<close>,
  \<open>globals.cc\<close> and the statics of \<open>control.cc\<close>): one \<open>thread_data\<close> record per virtual
  processor, each with a \<open>Sift::Writer\<close> or the null pointer. The writer is outside the
  repository; it is kept as the list of the calls made on it.
\<close>

section \<open>The writer\<close>

datatype cacheonly_type = CacheOnlyMemRead | CacheOnlyMemWrite | CacheOnlyBranchTaken
  | CacheOnlyBranchNotTaken

text \<open>The constants of \<open>sim_api.h\<close> that the sources name, kept symbolic.\<close>

datatype sim_const = SIM_CMD_INSTRUMENT_MODE | SIM_OPT_INSTRUMENT_FASTFORWARD
  | SIM_OPT_INSTRUMENT_WARMUP | SIM_OPT_INSTRUMENT_DETAILED

datatype sift_call =
    InstructionCount u64
  | CacheOnly u64 cacheonly_type u64 u64
  | Translate u64 u64
  | Sync
  | InstructionBegin u64 u64 bool bool
  | InstructionEnd
  | InstructionAbort
  | InstructionMem u64
  | InstructionBranch bool
  | SendICache u64 u64 u64
  | FlushICache u64
  | VCPUIdle
  | VCPUResume
  | Magic sim_const sim_const u64
  | GMMCommand nat u64 u64
  | SendGMMUserMessage u64 u64 u64
  | End
  | Abort

text \<open>A writer: the arguments of its constructor that vary, whether both files opened, and the calls
  made on it, in order.\<close>

record sift_writer =
  w_filename :: string
  w_response :: string
  w_id :: u32
  w_is_open :: bool
  w_calls :: "sift_call list"

datatype sift_mode = ModeUnknown | ModeIcount | ModeMemory | ModeDetailed | ModeStop

section \<open>Per-processor data\<close>

type_synonym addrint = u64

record thread_data =
  td_output :: "sift_writer option"
  td_bbv :: "bbv option"
  td_thread_num :: u64
  td_bbv_base :: addrint
  td_bbv_count :: u64
  td_bbv_last :: addrint
  td_bbv_end :: bool
  td_pc :: addrint
  td_br_addr :: addrint
  td_br_target :: addrint
  td_br_fallthrough :: addrint
  td_tb_vaddr1 :: addrint
  td_tb_vaddr2 :: addrint
  td_wr_size :: u64
  td_blocknum :: u64
  td_icount :: u64
  td_icount_cacheonly :: u64
  td_icount_cacheonly_pending :: u64
  td_icount_detailed :: u64
  td_icount_reported :: u64
  td_flowcontrol_target :: u64
  td_loads :: u64
  td_stores :: u64
  td_idle :: bool
  td_enabled :: bool
  td_capturing :: bool
  td_capture_next_addr1 :: bool
  td_capture_next_addr2 :: bool
  td_captured_addr1 :: u64
  td_captured_addr2 :: u64
  td_icount_other :: u64
  td_icount_user :: u64

text \<open>The value-initialised element that \<open>thread_data.resize\<close> appends.\<close>

definition thread_data_zero :: thread_data where
  "thread_data_zero =
     \<lparr>td_output = None, td_bbv = None, td_thread_num = 0, td_bbv_base = 0, td_bbv_count = 0,
      td_bbv_last = 0, td_bbv_end = False, td_pc = 0, td_br_addr = 0, td_br_target = 0,
      td_br_fallthrough = 0, td_tb_vaddr1 = 0, td_tb_vaddr2 = 0, td_wr_size = 0,
      td_blocknum = 0, td_icount = 0, td_icount_cacheonly = 0, td_icount_cacheonly_pending = 0,
      td_icount_detailed = 0, td_icount_reported = 0, td_flowcontrol_target = 0, td_loads = 0,
      td_stores = 0, td_idle = False, td_enabled = False, td_capturing = False,
      td_capture_next_addr1 = False, td_capture_next_addr2 = False, td_captured_addr1 = 0,
      td_captured_addr2 = 0, td_icount_other = 0, td_icount_user = 0\<rparr>"

definition FlowControlFF :: u32 where "FlowControlFF = 100000"
definition FlowControl :: u32 where "FlowControl = 1000"

section \<open>Global state\<close>

text \<open>
  A callback handed to QEMU to be run later: by \<open>qemu_plugin_reset\<close>, or by
  \<open>qemu_plugin_vcpu_tb_flush\<close> for a mode switch or a counter reset.
\<close>

datatype trace_job = Job_Stop | Job_Mode sift_mode | Job_Counters

text \<open>
  \<open>tr_block_cnt\<close> holds an association list per \<open>unordered_map\<close>. \<open>tr_jobs\<close> are the jobs QEMU
  has accepted and not run, \<open>tr_registered\<close> says whether the instrumentation callbacks are
  registered with QEMU, and \<open>tr_closed\<close> keeps the writers that were deleted.
\<close>

record trace_state =
  tr_thread_data :: "thread_data list"
  tr_block_cnt :: "(u64 \<times> u64) list list"
  tr_smp_vcpus :: u32
  tr_trace_files :: "string list"
  tr_output_dir_template :: string
  tr_recording :: bool
  tr_current_mode :: sift_mode
  tr_roi_cr3 :: u64
  tr_magic :: u64
  tr_jobs :: "trace_job list"
  tr_registered :: bool
  tr_closed :: "(nat \<times> sift_writer) list"

definition trace_initial :: trace_state where
  "trace_initial =
     \<lparr>tr_thread_data = [], tr_block_cnt = [], tr_smp_vcpus = 0, tr_trace_files = [],
      tr_output_dir_template = ''/tmp/tmpXXXXXX'', tr_recording = False,
      tr_current_mode = ModeIcount, tr_roi_cr3 = 0, tr_magic = 0, tr_jobs = [],
      tr_registered = False, tr_closed = []\<rparr>"

section \<open>Calls on the writer, and access to one processor's data\<close>

definition emit :: "(thread_data \<Rightarrow> sift_call) \<Rightarrow> thread_data stmt" where
  "emit c t = (case td_output t of
     None \<Rightarrow> Inl Null_Deref
   | Some w \<Rightarrow> Inr (t\<lparr>td_output := Some (w\<lparr>w_calls := w_calls w @ [c t]\<rparr>)\<rparr>))"

lemma wp_emit [wp_simps]:
  "wp (emit c) Q t = (\<exists>w. td_output t = Some w \<and>
     Q (t\<lparr>td_output := Some (w\<lparr>w_calls := w_calls w @ [c t]\<rparr>)\<rparr>))"
  by (simp add: wp_def emit_def split: option.split)

lemma wlp_emit [wp_simps]:
  "wlp (emit c) Q t = (\<forall>w. td_output t = Some w \<longrightarrow>
     Q (t\<lparr>td_output := Some (w\<lparr>w_calls := w_calls w @ [c t]\<rparr>)\<rparr>))"
  by (simp add: wlp_def emit_def split: option.split)

text \<open>\<open>thread_data[i]\<close>, updated in place by a handler.\<close>

definition on_thread :: "nat \<Rightarrow> thread_data stmt \<Rightarrow> trace_state stmt" where
  "on_thread i h s =
     bind_res (vec_at (tr_thread_data s) i) (\<lambda>t.
       bind_res (h t) (\<lambda>t'. Inr (s\<lparr>tr_thread_data := (tr_thread_data s)[i := t']\<rparr>)))"

lemma wp_on_thread [wp_simps]:
  "wp (on_thread i h) Q s =
     (i < length (tr_thread_data s) \<and>
      wp h (\<lambda>t'. Q (s\<lparr>tr_thread_data := (tr_thread_data s)[i := t']\<rparr>)) (tr_thread_data s ! i))"
  by (auto simp: wp_def on_thread_def vec_at_def split: sum.split)

lemma wlp_on_thread [wp_simps]:
  "wlp (on_thread i h) Q s =
     (i < length (tr_thread_data s) \<longrightarrow>
      wlp h (\<lambda>t'. Q (s\<lparr>tr_thread_data := (tr_thread_data s)[i := t']\<rparr>)) (tr_thread_data s ! i))"
  by (auto simp: wlp_def on_thread_def vec_at_def split: sum.split)

lemma on_thread_Inr:
  "on_thread i h s = Inr s' \<longleftrightarrow>
     (\<exists>t'. i < length (tr_thread_data s) \<and> h (tr_thread_data s ! i) = Inr t' \<and>
        s' = s\<lparr>tr_thread_data := (tr_thread_data s)[i := t']\<rparr>)"
  by (auto simp: on_thread_def vec_at_def bind_res_eq_Inr split: if_splits)

text \<open>The calls made on a processor's writer.\<close>

definition calls_of :: "thread_data \<Rightarrow> sift_call list" where
  "calls_of t = (case td_output t of None \<Rightarrow> [] | Some w \<Rightarrow> w_calls w)"

lemma calls_of_Some [simp]: "td_output t = Some w \<Longrightarrow> calls_of t = w_calls w"
  by (simp add: calls_of_def)

end
