(* ===== verification/Trace_Callbacks.thy ===== *)
theory Trace_Callbacks
  imports Trace_State
begin

text \<open>
  \<open>host/trace/callbacks.cc\<close>, the callbacks: one statement over \<open>thread_data\<close> per
  callback (with the globals it reads and QEMU's answers as arguments), and their lift to the
  recorder's state. The lemmas give the invariants each callback keeps.
\<close>

section \<open>Block and instruction callbacks\<close>

definition in_roi :: "u64 \<Rightarrow> qemu_view \<Rightarrow> bool" where
  "in_roi roi q \<longleftrightarrow> roi = 0 \<or> (\<not> q_in_kernel q \<and> q_page_directory q = roi)"

definition over_ff :: "thread_data \<Rightarrow> bool" where
  "over_ff t \<longleftrightarrow> ucast FlowControlFF < td_icount_reported t"

definition tb_exec_count_insns :: "u64 \<Rightarrow> thread_data stmt" where
  "tb_exec_count_insns udata = block
     [upd (\<lambda>t. t\<lparr>td_icount := td_icount t + udata\<rparr>),
      upd (\<lambda>t. t\<lparr>td_icount_reported := td_icount_reported t + udata\<rparr>),
      ifs over_ff (block
        [emit (\<lambda>t. InstructionCount (td_icount_reported t)),
         upd (\<lambda>t. t\<lparr>td_icount_reported := 0\<rparr>)])]"

definition insn_exec_count_insn :: "thread_data stmt" where
  "insn_exec_count_insn =
     upd (\<lambda>t. t\<lparr>td_icount_cacheonly_pending := td_icount_cacheonly_pending t + 1\<rparr>)"

definition insn_exec_branch :: "u64 \<Rightarrow> thread_data stmt" where
  "insn_exec_branch udata = upd (\<lambda>t. t\<lparr>td_br_addr := udata\<rparr>)"

definition sync_and_retarget :: "thread_data stmt" where
  "sync_and_retarget = block
     [emit (\<lambda>_. Sync),
      upd (\<lambda>t. t\<lparr>td_flowcontrol_target := td_icount_detailed t + ucast FlowControl\<rparr>)]"

definition insn_exec_pause :: "thread_data stmt" where
  "insn_exec_pause = ifs (\<lambda>t. \<not> td_idle t) sync_and_retarget"

definition insn_exec_cmpxchg :: "thread_data stmt" where
  "insn_exec_cmpxchg = ifs (\<lambda>t. \<not> td_idle t \<and> \<not> td_capturing t) sync_and_retarget"

definition insn_exec_branch_ram_addr :: "u64 \<Rightarrow> thread_data stmt" where
  "insn_exec_branch_ram_addr udata = emit (\<lambda>t. Translate (td_br_addr t) udata)"

definition mem_update_pc :: "u64 \<Rightarrow> thread_data stmt" where
  "mem_update_pc udata = upd (\<lambda>t. t\<lparr>td_pc := udata\<rparr>)"

definition add_cacheonly :: "u64 \<Rightarrow> thread_data stmt" where
  "add_cacheonly pending = block
     [upd (\<lambda>t. t\<lparr>td_icount_cacheonly := td_icount_cacheonly t + pending\<rparr>),
      upd (\<lambda>t. t\<lparr>td_icount_reported := td_icount_reported t + pending\<rparr>),
      upd (\<lambda>t. t\<lparr>td_icount_cacheonly_pending := 0\<rparr>)]"

definition sync_if_over_ff :: "thread_data stmt" where
  "sync_if_over_ff = ifs over_ff (block
     [emit (\<lambda>_. Sync), upd (\<lambda>t. t\<lparr>td_icount_reported := 0\<rparr>)])"

definition mem_send_cacheonly :: "u64 \<Rightarrow> qemu_view \<Rightarrow> u64 \<Rightarrow> thread_data stmt" where
  "mem_send_cacheonly udata q vaddr =
     letv td_icount_cacheonly_pending (\<lambda>pending. block
     [emit (\<lambda>_. Translate vaddr (q_paddr q)),
      letv td_pc (\<lambda>pc. block
      [ifs (\<lambda>_. pending \<noteq> 0) (block
         [emit (\<lambda>_. Translate pc udata),
          add_cacheonly pending]),
       emit (\<lambda>_. CacheOnly pending
                   (if q_is_store q then CacheOnlyMemWrite else CacheOnlyMemRead) pc vaddr),
       sync_if_over_ff])])"

definition tb_exec_update_target :: "u64 \<Rightarrow> thread_data stmt" where
  "tb_exec_update_target udata = block
     [upd (\<lambda>t. t\<lparr>td_br_target := udata\<rparr>), upd (\<lambda>t. t\<lparr>td_tb_vaddr1 := udata\<rparr>)]"

definition tb_exec_update_fallthrough :: "u64 \<Rightarrow> thread_data stmt" where
  "tb_exec_update_fallthrough udata = upd (\<lambda>t. t\<lparr>td_br_fallthrough := udata\<rparr>)"

definition clear_branch :: "thread_data stmt" where
  "clear_branch = block
     [upd (\<lambda>t. t\<lparr>td_br_addr := 0\<rparr>), upd (\<lambda>t. t\<lparr>td_br_fallthrough := 0\<rparr>)]"

definition tb_exec_branch_cacheonly :: "u64 \<Rightarrow> thread_data stmt" where
  "tb_exec_branch_cacheonly udata = ifs (\<lambda>t. td_br_addr t \<noteq> 0) (
     letv td_icount_cacheonly_pending (\<lambda>pending. block
     [assertc (\<lambda>t. td_br_fallthrough t \<noteq> 0),
      letv (\<lambda>t. if td_br_target t = td_br_fallthrough t
                then CacheOnlyBranchNotTaken else CacheOnlyBranchTaken) (\<lambda>ty. block
      [emit (\<lambda>t. Translate (td_br_target t) udata),
       emit (\<lambda>t. CacheOnly pending ty (td_br_addr t) (td_br_target t)),
       add_cacheonly pending,
       clear_branch,
       sync_if_over_ff])]))"

definition tb_exec_itlb :: "u64 \<Rightarrow> qemu_view \<Rightarrow> u64 \<Rightarrow> thread_data stmt" where
  "tb_exec_itlb roi q udata = ifs (\<lambda>_. in_roi roi q) (emit (\<lambda>t. Translate (td_tb_vaddr1 t) udata))"

definition tb_exec_itlb2 :: "u64 \<Rightarrow> qemu_view \<Rightarrow> u64 \<Rightarrow> thread_data stmt" where
  "tb_exec_itlb2 roi q udata = ifs (\<lambda>_. in_roi roi q) (emit (\<lambda>t. Translate (td_tb_vaddr2 t) udata))"

definition insn_exec_update_pc :: "u64 \<Rightarrow> qemu_view \<Rightarrow> u64 \<Rightarrow> thread_data stmt" where
  "insn_exec_update_pc roi q udata = block
     [emit (\<lambda>_. InstructionEnd),
      upd (\<lambda>t. t\<lparr>td_pc := udata\<rparr>),
      ifs (\<lambda>t. \<not> td_idle t) (block
        [upd (\<lambda>t. t\<lparr>td_icount_detailed := td_icount_detailed t + 1\<rparr>),
         ife (\<lambda>_. q_page_directory q = roi)
           (upd (\<lambda>t. t\<lparr>td_icount_user := td_icount_user t + 1\<rparr>))
           (upd (\<lambda>t. t\<lparr>td_icount_other := td_icount_other t + 1\<rparr>)),
         ifs (\<lambda>t. td_flowcontrol_target t < td_icount_detailed t) (block
           [emit (\<lambda>_. Sync),
            upd (\<lambda>t. t\<lparr>td_flowcontrol_target := td_flowcontrol_target t + ucast FlowControl\<rparr>)])])]"

definition insn_exec_pc_next :: "u64 \<Rightarrow> qemu_view \<Rightarrow> u64 \<Rightarrow> thread_data stmt" where
  "insn_exec_pc_next roi q udata =
     letv td_pc (\<lambda>pc.
       ifs (\<lambda>t. in_roi roi q \<and> \<not> td_capturing t)
         (emit (\<lambda>_. InstructionBegin pc (udata - pc) False True)))"

definition insn_exec_itlb :: "u64 \<Rightarrow> qemu_view \<Rightarrow> u64 \<Rightarrow> thread_data stmt" where
  "insn_exec_itlb roi q udata = ifs (\<lambda>_. in_roi roi q) (emit (\<lambda>t. Translate (td_pc t) udata))"

definition mem_send_detailed :: "u64 \<Rightarrow> u64 \<Rightarrow> qemu_view \<Rightarrow> u64 \<Rightarrow> thread_data stmt" where
  "mem_send_detailed roi mg q vaddr = block
     [ifs (\<lambda>_. in_roi roi q \<and> vaddr = mg \<and> q_is_store q) (block
        [emit (\<lambda>_. InstructionAbort),
         ife (\<lambda>t. \<not> td_capturing t)
           (upd (\<lambda>t. t\<lparr>td_capturing := True, td_capture_next_addr1 := False,
                       td_capture_next_addr2 := False, td_captured_addr1 := 0,
                       td_captured_addr2 := 0\<rparr>))
           (upd (\<lambda>t. t\<lparr>td_capturing := False\<rparr>))]),
      emit (\<lambda>_. Translate vaddr (q_paddr q)),
      ifs (\<lambda>_. \<not> q_in_kernel q \<and> q_page_directory q = roi)
        (ife (\<lambda>_. q_is_store q)
           (upd (\<lambda>t. t\<lparr>td_stores := td_stores t + 1\<rparr>))
           (upd (\<lambda>t. t\<lparr>td_loads := td_loads t + 1\<rparr>))),
      emit (\<lambda>_. InstructionMem vaddr)]"

definition tb_exec_branch_detailed :: "u64 \<Rightarrow> qemu_view \<Rightarrow> thread_data stmt" where
  "tb_exec_branch_detailed roi q = ifs (\<lambda>t. td_br_addr t \<noteq> 0) (block
     [assertc (\<lambda>t. td_br_fallthrough t \<noteq> 0),
      letv (\<lambda>t. td_br_target t \<noteq> td_br_fallthrough t) (\<lambda>taken. block
      [ife (\<lambda>_. in_roi roi q)
         (ifs td_idle (block
           [emit (\<lambda>_. VCPUResume),
            upd (\<lambda>t. t\<lparr>td_idle := False\<rparr>)]))
         (ifs (\<lambda>t. \<not> td_idle t) (block
           [emit (\<lambda>_. InstructionEnd),
            emit (\<lambda>_. VCPUIdle),
            upd (\<lambda>t. t\<lparr>td_idle := True\<rparr>)])),
       emit (\<lambda>_. InstructionBranch taken),
       clear_branch])])"

definition icache_pgd :: "qemu_view \<Rightarrow> u64" where
  "icache_pgd q = (if q_in_kernel q then 0 else q_page_directory q)"

definition tb_exec_send_icache :: "u64 \<Rightarrow> qemu_view \<Rightarrow> u64 \<Rightarrow> thread_data stmt" where
  "tb_exec_send_icache roi q udata = ifs (\<lambda>_. in_roi roi q)
     (emit (\<lambda>t. SendICache (td_tb_vaddr1 t) udata (icache_pgd q)))"

definition tb_exec_vaddr2 :: "u64 \<Rightarrow> thread_data stmt" where
  "tb_exec_vaddr2 udata = upd (\<lambda>t. t\<lparr>td_tb_vaddr2 := udata\<rparr>)"

definition tb_exec_send_icache2 :: "u64 \<Rightarrow> qemu_view \<Rightarrow> u64 \<Rightarrow> thread_data stmt" where
  "tb_exec_send_icache2 roi q udata = ifs (\<lambda>_. in_roi roi q)
     (emit (\<lambda>t. SendICache (td_tb_vaddr2 t) udata (icache_pgd q)))"

section \<open>Processor events\<close>

definition vcpu_interrupt_cb :: "sift_mode \<Rightarrow> thread_data stmt" where
  "vcpu_interrupt_cb mode = ifs (\<lambda>_. mode = ModeDetailed) (emit (\<lambda>_. InstructionEnd))"

definition vcpu_interrupt_ret_cb :: "sift_mode \<Rightarrow> thread_data stmt" where
  "vcpu_interrupt_ret_cb mode = ifs (\<lambda>_. mode = ModeDetailed) (emit (\<lambda>_. InstructionEnd))"

definition vcpu_idle_cb :: "sift_mode \<Rightarrow> thread_data stmt" where
  "vcpu_idle_cb mode = block
     [ifs (\<lambda>_. mode = ModeDetailed) (emit (\<lambda>_. InstructionEnd)),
      ifs (\<lambda>t. \<not> td_idle t) (block
        [emit (\<lambda>_. VCPUIdle), upd (\<lambda>t. t\<lparr>td_idle := True\<rparr>)])]"

definition vcpu_resume_cb :: "thread_data stmt" where
  "vcpu_resume_cb = ifs td_idle (block
     [emit (\<lambda>_. VCPUResume), upd (\<lambda>t. t\<lparr>td_idle := False\<rparr>)])"

definition SYS_execve :: int where "SYS_execve = 59"
definition SYS_execveat :: int where "SYS_execveat = 322"

definition syscall_is_exec :: "int \<Rightarrow> bool" where
  "syscall_is_exec num \<longleftrightarrow> num = SYS_execve \<or> num = SYS_execveat"

text \<open>A \<open>for\<close> loop over all processors.\<close>

definition for_vcpus :: "(nat \<Rightarrow> trace_state stmt) \<Rightarrow> trace_state stmt" where
  "for_vcpus body s = block (map body [0..<unat (tr_smp_vcpus s)]) s"

definition vcpu_syscall_cb :: "int \<Rightarrow> qemu_view \<Rightarrow> trace_state stmt" where
  "vcpu_syscall_cb num q = ifs (\<lambda>s. tr_current_mode s = ModeDetailed)
     (ifs (\<lambda>_. syscall_is_exec num)
       (for_vcpus (\<lambda>i. on_thread i (emit (\<lambda>_. FlushICache (q_page_directory q))))))"

definition vcpu_syscall_ret_cb :: "trace_state stmt" where
  "vcpu_syscall_ret_cb = Inr"

section \<open>Hot blocks\<close>

text \<open>\<open>m[k]++\<close> on an \<open>unordered_map\<close>, which starts a missing key at 0.\<close>

fun bump_block :: "u64 \<Rightarrow> (u64 \<times> u64) list \<Rightarrow> (u64 \<times> u64) list" where
  "bump_block k [] = [(k, 1)]"
| "bump_block k ((k', n) # m) = (if k = k' then (k', n + 1) # m else (k', n) # bump_block k m)"

definition tb_exec_hot_blocks :: "nat \<Rightarrow> qemu_view \<Rightarrow> u64 \<Rightarrow> trace_state stmt" where
  "tb_exec_hot_blocks i q udata = ifs (\<lambda>s. q_page_directory q = tr_roi_cr3 s)
     (\<lambda>s. bind_res (vec_at (tr_block_cnt s) i) (\<lambda>m.
            Inr (s\<lparr>tr_block_cnt := (tr_block_cnt s)[i := bump_block udata m]\<rparr>)))"

end
