(* ===== verification/Trace_Control.thy ===== *)
theory Trace_Control
  imports Trace_Callbacks
begin

text \<open>
  \<open>host/trace/control.cc\<close>: starting and stopping a recording, the mode switches, the counter
  reset, the segment commands and the control entry point. QEMU runs some of this later; such
  jobs are kept in \<open>tr_jobs\<close> until \<open>run_job\<close> runs one of them. Every request adds its job; QEMU
  may drop a reset that is requested while one is pending, so the jobs over-approximate what it
  runs, and no theorem rests on a second reset.
\<close>

section \<open>The environment\<close>

text \<open>
  What the code asks of the system: the directory that \<open>mkdtemp\<close> makes of a template, whether a
  writer can open its files, the page directory of the calling processor, and the
  order in which an \<open>unordered_map\<close> is iterated.
\<close>

record trace_env =
  te_mkdtemp :: "string \<Rightarrow> string option"
  te_open :: "string \<Rightarrow> string \<Rightarrow> bool"
  te_page_directory :: u64
  te_iteration :: "(u64 \<times> u64) list \<Rightarrow> (u64 \<times> u64) list"

type_synonym 's step_result = "fault + ('s \<times> effect list)"

text \<open>Sequencing and iteration of steps with effects.\<close>

definition and_then :: "'s step_result \<Rightarrow> ('s \<Rightarrow> 's step_result) \<Rightarrow> 's step_result" where
  "and_then r f = bind_res r (\<lambda>(s, es). bind_res (f s) (\<lambda>(s', fs). Inr (s', es @ fs)))"

fun for_each :: "('i \<Rightarrow> 's \<Rightarrow> 's step_result) \<Rightarrow> 'i list \<Rightarrow> 's \<Rightarrow> 's step_result" where
  "for_each f [] s = Inr (s, [])"
| "for_each f (i # is) s = and_then (f i s) (for_each f is)"

definition quietly :: "'s stmt \<Rightarrow> 's \<Rightarrow> 's step_result" where
  "quietly c s = bind_res (c s) (\<lambda>s'. Inr (s', []))"

definition print_info :: "string \<Rightarrow> effect" where
  "print_info msg = Stdout (''[SIFT_RECORDER] '' @ msg @ newline)"

definition print_error :: "string \<Rightarrow> effect" where
  "print_error msg = Stderr (''[SIFT_RECORDER] '' @ msg @ newline)"

definition print_vcpu_info :: "nat \<Rightarrow> string \<Rightarrow> effect" where
  "print_vcpu_info i msg = Stdout (''[SIFT_RECORDER: '' @ show_u i @ ''] '' @ msg @ newline)"

definition print_vcpu_error :: "nat \<Rightarrow> string \<Rightarrow> effect" where
  "print_vcpu_error i msg = Stderr (''[SIFT_RECORDER: '' @ show_u i @ ''] '' @ msg @ newline)"

definition vcpus :: "trace_state \<Rightarrow> nat list" where
  "vcpus s = [0..<unat (tr_smp_vcpus s)]"

section \<open>Resetting and opening\<close>

definition reset_thread :: "nat \<Rightarrow> thread_data \<Rightarrow> thread_data" where
  "reset_thread i t = t\<lparr>
     td_thread_num := of_nat i, td_output := None, td_pc := 0, td_br_addr := 0, td_br_target := 0,
     td_br_fallthrough := 0, td_tb_vaddr1 := 0, td_tb_vaddr2 := 0, td_icount := 0,
     td_icount_cacheonly := 0, td_icount_cacheonly_pending := 0, td_icount_detailed := 0,
     td_icount_reported := 0, td_flowcontrol_target := 0, td_loads := 0, td_stores := 0,
     td_icount_user := 0, td_icount_other := 0, td_enabled := True, td_idle := True,
     td_capturing := False, td_capture_next_addr1 := False, td_capture_next_addr2 := False,
     td_captured_addr1 := 0, td_captured_addr2 := 0\<rparr>"

definition clear_blocks :: "nat \<Rightarrow> trace_state stmt" where
  "clear_blocks i s = bind_res (vec_at (tr_block_cnt s) i)
     (\<lambda>_. Inr (s\<lparr>tr_block_cnt := (tr_block_cnt s)[i := []]\<rparr>))"

definition thread_data_reset :: "trace_state stmt" where
  "thread_data_reset = for_vcpus (\<lambda>i. block [on_thread i (upd (reset_thread i)), clear_blocks i])"

definition vcpu_file :: "string \<Rightarrow> nat \<Rightarrow> string" where
  "vcpu_file dir i = dir @ ''/vcpu'' @ show_u i @ ''.sift''"

definition response_file :: "string \<Rightarrow> nat \<Rightarrow> string" where
  "response_file dir i = dir @ ''/response.vcpu'' @ show_u i @ ''.sift''"

definition closeFile :: "nat \<Rightarrow> trace_state stmt" where
  "closeFile i s = bind_res (vec_at (tr_thread_data s) i) (\<lambda>t.
     let s' = s\<lparr>tr_thread_data := (tr_thread_data s)[i := t\<lparr>td_output := None\<rparr>]\<rparr> in
     case td_output t of
       None \<Rightarrow> Inr s'
     | Some w \<Rightarrow> Inr (s'\<lparr>tr_closed := tr_closed s' @ [(i, w\<lparr>w_calls := w_calls w @ [Abort]\<rparr>)]\<rparr>))"

definition openFile :: "trace_env \<Rightarrow> string \<Rightarrow> nat \<Rightarrow> trace_state \<Rightarrow> trace_state step_result" where
  "openFile env dir i s = bind_res (vec_at (tr_thread_data s) i) (\<lambda>t.
     bind_res (if td_output t \<noteq> None
               then block [closeFile i, on_thread i (upd (\<lambda>t. t\<lparr>td_blocknum := td_blocknum t + 1\<rparr>))] s
               else Inr s) (\<lambda>s1.
       let filename = vcpu_file dir i; response = response_file dir i;
           w = \<lparr>w_filename = filename, w_response = response, w_id = of_nat i,
                w_is_open = te_open env filename response, w_calls = []\<rparr>
       in bind_res (on_thread i (upd (\<lambda>t. t\<lparr>td_output := Some w\<rparr>)) s1) (\<lambda>s2.
            Inr (s2, if w_is_open w then []
                     else [print_vcpu_error i (''Error: Unable to open the output file '' @ filename)]))))"

section \<open>Start\<close>

definition refresh_template :: "string \<Rightarrow> string" where
  "refresh_template d = take (length d - 6) d @ ''XXXXXX''"

definition output_dir :: "trace_env \<Rightarrow> string option \<Rightarrow> trace_state \<Rightarrow> fault + (string \<times> trace_state)" where
  "output_dir env dir s = (case dir of
     Some d \<Rightarrow> Inr (d, s)
   | None \<Rightarrow> (case te_mkdtemp env (refresh_template (tr_output_dir_template s)) of
       None \<Rightarrow> Inl Assert_Fail
     | Some d \<Rightarrow> Inr (d, s\<lparr>tr_output_dir_template := d\<rparr>)))"

definition make_fifos :: "string \<Rightarrow> nat \<Rightarrow> trace_state \<Rightarrow> trace_state step_result" where
  "make_fifos dir i s =
     (let filename = vcpu_file dir i; response = response_file dir i in
      Inr (s\<lparr>tr_trace_files := tr_trace_files s @ [filename, response]\<rparr>,
           [Mkfifo filename, Mkfifo response]))"

definition recorder_start ::
    "trace_env \<Rightarrow> string option \<Rightarrow> trace_state \<Rightarrow> trace_state step_result" where
  "recorder_start env dir s =
     (if tr_recording s then Inr (s, [print_error ''already recording.''])
      else bind_res (output_dir env dir s) (\<lambda>(d, s1).
        and_then (quietly thread_data_reset s1) (\<lambda>s2.
        and_then (for_each (make_fifos d) (vcpus s2) s2) (\<lambda>s3.
        and_then (Inr (s3, [print_info (''recording to '' @ d)])) (\<lambda>s4.
        and_then (for_each (openFile env d) (vcpus s4) s4) (\<lambda>s5.
          Inr (s5\<lparr>tr_recording := True, tr_current_mode := ModeIcount, tr_registered := True\<rparr>,
               [Register On_Tb_Trans, Register On_Idle, Register On_Resume, Register On_Interrupt,
                Register On_Interrupt_Ret, Register On_Syscall, Register On_Syscall_Ret,
                Tb_Flush])))))))"

section \<open>Stop\<close>

definition recorder_stop :: "nat \<Rightarrow> trace_state \<Rightarrow> trace_state step_result" where
  "recorder_stop cpu s =
     (if \<not> tr_recording s then Inr (s, [print_error ''not recording''])
      else bind_res (on_thread cpu (emit (\<lambda>_. End)) s) (\<lambda>s'.
        Inr (s'\<lparr>tr_jobs := tr_jobs s' @ [Job_Stop]\<rparr>, [Plugin_Reset])))"

text \<open>
  \<open>std::inserter\<close> into the multimap ordered by \<open>greater\<close>: an element goes as close to the hint
  as the order allows, and the hint moves behind it.
\<close>

definition hint_insert :: "u64 \<times> u64 \<Rightarrow> nat \<times> (u64 \<times> u64) list \<Rightarrow> nat \<times> (u64 \<times> u64) list" where
  "hint_insert p = (\<lambda>(hint, m).
     let lower = length (takeWhile (\<lambda>x. fst p < fst x) m);
         upper = length (takeWhile (\<lambda>x. fst p \<le> fst x) m);
         pos = max lower (min hint upper)
     in (pos + 1, take pos m @ p # drop pos m))"

definition sort_map :: "(u64 \<times> u64) list \<Rightarrow> (u64 \<times> u64) list" where
  "sort_map cnt = snd (fold hint_insert (map (\<lambda>(k, n). (n, k)) cnt) (0, []))"

definition hot_blocks_text :: "(u64 \<times> u64) list \<Rightarrow> string" where
  "hot_blocks_text m =
     concat (map (\<lambda>(n, k). show_x (unat k) @ '': '' @ show_u (unat n) @ '', '') (take 10 m)) @ newline"

definition counters_text :: "thread_data \<Rightarrow> string" where
  "counters_text t = ''user: '' @ show_u (unat (td_icount_user t)) @ '', other: '' @
     show_u (unat (td_icount_other t)) @ '', loads: '' @ show_u (unat (td_loads t)) @ '', writes: '' @
     show_u (unat (td_stores t))"

definition stop_vcpu :: "nat \<Rightarrow> trace_state \<Rightarrow> trace_state step_result" where
  "stop_vcpu i s = and_then (quietly (closeFile i) s) (\<lambda>s'.
     if tr_current_mode s' = ModeDetailed
     then bind_res (vec_at (tr_thread_data s') i) (\<lambda>t. Inr (s', [print_vcpu_info i (counters_text t)]))
     else Inr (s', []))"

definition job_stop :: "trace_env \<Rightarrow> trace_state \<Rightarrow> trace_state step_result" where
  "job_stop env s =
     and_then (for_each stop_vcpu (vcpus s) s) (\<lambda>s1.
     and_then (bind_res (vec_at (tr_block_cnt s1) 0) (\<lambda>cnt.
       Inr (s1, [print_vcpu_info 0 ''Hot blocks:'',
                 Stdout (hot_blocks_text (sort_map (te_iteration env cnt)))]))) (\<lambda>s2.
       Inr (s2\<lparr>tr_trace_files := [], tr_recording := False, tr_registered := False\<rparr>,
            map Unlink (tr_trace_files s2) @
            [Set_Slomo_Rate 1, print_info ''Successfully reset trace.''])))"

section \<open>Segments, modes, counters\<close>

definition recorder_gmm ::
    "nat \<Rightarrow> string \<Rightarrow> u64 \<Rightarrow> u64 \<Rightarrow> trace_state \<Rightarrow> trace_state step_result" where
  "recorder_gmm cpu cmd_str segment arg1 s =
     (if cmd_str = ''create'' then quietly (on_thread cpu (emit (\<lambda>_. GMMCommand 0 segment arg1))) s
      else if cmd_str = ''assign'' then quietly (on_thread cpu (emit (\<lambda>_. GMMCommand 1 segment arg1))) s
      else if cmd_str = ''delete'' then quietly (on_thread cpu (emit (\<lambda>_. GMMCommand 2 segment arg1))) s
      else if cmd_str = ''message'' then
        (if tr_current_mode s = ModeDetailed
         then quietly (on_thread cpu (emit (\<lambda>_. SendGMMUserMessage 10 segment arg1))) s else Inr (s, []))
      else if cmd_str = ''sync'' then
        (if tr_current_mode s = ModeDetailed
         then quietly (on_thread cpu (emit (\<lambda>_. SendGMMUserMessage 35 0 0))) s else Inr (s, []))
      else Inr (s, [print_error (''Unknown gmm command '' @ cmd_str @ ''.'')]))"

definition parse_mode :: "string \<Rightarrow> sift_mode option" where
  "parse_mode mode_str =
     (if mode_str = ''fastforward'' then Some ModeIcount
      else if mode_str = ''cacheonly'' then Some ModeMemory
      else if mode_str = ''detailed'' then Some ModeDetailed
      else None)"

text \<open>The three \<open>do_mode_switch\<close> functions.\<close>

definition mode_option :: "sift_mode \<Rightarrow> sim_const" where
  "mode_option mode =
     (if mode = ModeIcount then SIM_OPT_INSTRUMENT_FASTFORWARD
      else if mode = ModeMemory then SIM_OPT_INSTRUMENT_WARMUP else SIM_OPT_INSTRUMENT_DETAILED)"

definition do_mode_switch :: "sift_mode \<Rightarrow> nat \<Rightarrow> trace_state \<Rightarrow> trace_state step_result" where
  "do_mode_switch mode cpu s =
     bind_res (on_thread cpu (emit (\<lambda>_. Magic SIM_CMD_INSTRUMENT_MODE (mode_option mode) 0)) s) (\<lambda>s'.
       Inr (s'\<lparr>tr_current_mode := mode\<rparr>, [Set_Slomo_Rate (if mode = ModeDetailed then 100000 else 1)]))"

definition assert_open :: "nat \<Rightarrow> trace_state stmt" where
  "assert_open i s = bind_res (vec_at (tr_thread_data s) i) (\<lambda>t.
     case td_output t of None \<Rightarrow> Inl Null_Deref
     | Some w \<Rightarrow> if w_is_open w then Inr s else Inl Assert_Fail)"

definition recorder_mode :: "trace_env \<Rightarrow> nat \<Rightarrow> string \<Rightarrow> trace_state \<Rightarrow> trace_state step_result" where
  "recorder_mode env cpu mode_str s =
     (if \<not> tr_recording s then Inr (s, [print_error ''not recording''])
      else case parse_mode mode_str of
        None \<Rightarrow> Inr (s, [print_error (''Unknown mode '' @ mode_str @ ''.'')])
      | Some mode \<Rightarrow>
          if tr_current_mode s = mode then Inr (s, [])
          else if mode = ModeDetailed then
            bind_res (for_vcpus assert_open s) (\<lambda>s1.
            let s2 = s1\<lparr>tr_roi_cr3 := te_page_directory env\<rparr> in
            and_then (Inr (s2, [print_info (''CR3: '' @ show_x (unat (tr_roi_cr3 s2)))])) (\<lambda>s3.
            and_then (do_mode_switch mode cpu s3) (\<lambda>s4. Inr (s4, [Tb_Flush]))))
          else Inr (s\<lparr>tr_roi_cr3 := te_page_directory env, tr_jobs := tr_jobs s @ [Job_Mode mode]\<rparr>,
                    [Vcpu_Tb_Flush]))"

definition recorder_reset :: "trace_env \<Rightarrow> trace_state \<Rightarrow> trace_state step_result" where
  "recorder_reset env s =
     (if \<not> tr_recording s then Inr (s, [print_error ''not recording.''])
      else Inr (s\<lparr>tr_roi_cr3 := te_page_directory env, tr_jobs := tr_jobs s @ [Job_Counters]\<rparr>,
                [Vcpu_Tb_Flush]))"

definition reset_counters :: "thread_data \<Rightarrow> thread_data" where
  "reset_counters t = t\<lparr>td_icount := 0, td_icount_cacheonly := 0, td_icount_cacheonly_pending := 0,
     td_icount_detailed := 0, td_icount_reported := 0, td_loads := 0, td_stores := 0,
     td_icount_user := 0, td_icount_other := 0\<rparr>"

definition job_counters :: "trace_state stmt" where
  "job_counters = for_vcpus (\<lambda>i. on_thread i (upd reset_counters))"

text \<open>QEMU runs the job at position \<open>k\<close>, on processor \<open>cpu\<close>.\<close>

definition do_job :: "trace_env \<Rightarrow> trace_job \<Rightarrow> nat \<Rightarrow> trace_state \<Rightarrow> trace_state step_result" where
  "do_job env job cpu s = (case job of
     Job_Stop \<Rightarrow> job_stop env s
   | Job_Mode mode \<Rightarrow> do_mode_switch mode cpu s
   | Job_Counters \<Rightarrow> quietly job_counters s)"

definition remove_nth :: "nat \<Rightarrow> 'a list \<Rightarrow> 'a list" where
  "remove_nth k xs = take k xs @ drop (Suc k) xs"

definition run_job :: "trace_env \<Rightarrow> nat \<Rightarrow> nat \<Rightarrow> trace_state \<Rightarrow> trace_state step_result" where
  "run_job env k cpu s =
     (if k < length (tr_jobs s)
      then do_job env (tr_jobs s ! k) cpu (s\<lparr>tr_jobs := remove_nth k (tr_jobs s)\<rparr>)
      else Inr (s, []))"

section \<open>The control entry point\<close>

definition trace_option :: "opt \<Rightarrow> string option \<Rightarrow> string option" where
  "trace_option r dir = (let (c, optarg, _) = r in if c = CHR ''d'' then optarg else dir)"

definition magic_command :: "u64 \<Rightarrow> trace_state \<Rightarrow> trace_state step_result" where
  "magic_command m s = Inr (s\<lparr>tr_magic := m\<rparr>, [print_info (''magic = '' @ show_u (unat m))])"

definition trace_command ::
    "trace_env \<Rightarrow> nat \<Rightarrow> string option \<Rightarrow> string list \<Rightarrow> trace_state \<Rightarrow> trace_state step_result" where
  "trace_command env cpu dir args s =
     (if args = [] \<or> hd args = ''start'' then recorder_start env dir s
      else if hd args = ''mode'' then
        (if length args \<le> 1 then Inr (s, [print_error ''Missing mode argument.''])
         else recorder_mode env cpu (args ! 1) s)
      else if hd args = ''stop'' then recorder_stop cpu s
      else if hd args = ''reset'' then recorder_reset env s
      else if hd args = ''gmm'' then
        (if length args \<le> 3 then Inr (s, [print_error ''Missing gmm argument.''])
         else recorder_gmm cpu (args ! 1) (word_of_int (strtol (args ! 2)))
                (word_of_int (strtol (args ! 3))) s)
      else if hd args = ''magic'' then
        (if length args \<le> 1 then Inl Null_Deref
         else magic_command (word_of_int (strtol (args ! 1))) s)
      else Inr (s, []))"

text \<open>The operands are the elements of the permuted vector from \<open>optind\<close> on; the element after the
  last is the null pointer, which \<open>strtol\<close> dereferences.\<close>

definition trace_control :: "trace_env \<Rightarrow> nat \<Rightarrow> trace_state control" where
  "trace_control env cpu argv s g =
     (if argv = [] \<or> hd argv \<noteq> ''trace'' then
        Inr (-1, s, g, [print_error (''Misdirected control for '' @ argv0_text argv)])
      else
        bind_res (getopt_loop ''d:'' g argv) (\<lambda>(opts, g', argv').
        bind_res (trace_command env cpu (fold trace_option opts None) (drop (optind g') argv') s)
          (\<lambda>(s', es). Inr (0, s', g'\<lparr>optind := 0\<rparr>, getopt_errors opts @ es))))"

definition trace_install :: "u64 \<Rightarrow> u32 \<Rightarrow> trace_state \<Rightarrow> trace_state step_result" where
  "trace_install pid n s =
     Inr (s\<lparr>tr_smp_vcpus := n,
            tr_thread_data := vec_resize (unat n) thread_data_zero (tr_thread_data s),
            tr_block_cnt := vec_resize (unat n) [] (tr_block_cnt s)\<rparr>,
          [print_info (''trace installed with id '' @ show_u (unat pid))])"

interpretation trace: option_hygiene "''trace''" "trace_control env cpu"
proof
  fix argv s g
  show "argv = [] \<or> hd argv \<noteq> ''trace'' \<Longrightarrow> \<exists>es. trace_control env cpu argv s g = Inr (-1, s, g, es)"
    by (auto simp: trace_control_def)
next
  fix g argv s rc s' g' es
  assume "getopt_fresh g" "trace_control env cpu argv s g = Inr (rc, s', g', es)"
  then show "getopt_fresh g'"
    by (auto simp: trace_control_def split_beta bind_res_eq_Inr getopt_fresh_def split: if_splits)
next
  fix g argv s
  assume g: "getopt_fresh g"
  show "answer (trace_control env cpu argv s g) = answer (trace_control env cpu argv s getopt_start)"
    using getopt_loop_fresh [OF g, of argv "''d:''"]
    by (simp add: trace_control_def answer_def bind_res_def split_beta split: sum.split)
qed

section \<open>The loops over all processors\<close>

lemma loop_upto:
  "(\<And>i. i < n \<Longrightarrow> body i (S i) = Inr (S (Suc i))) \<Longrightarrow> m \<le> n \<Longrightarrow> block (map body [0..<m]) (S 0) = Inr (S m)"
proof (induction m)
  case (Suc m)
  then show ?case by (simp add: block_append)
qed simp

lemma for_each_append:
  "for_each f (xs @ ys) s = and_then (for_each f xs s) (for_each f ys)"
proof (induction xs arbitrary: s)
  case Nil
  then show ?case by (simp add: and_then_def bind_res_def split: sum.split)
next
  case (Cons x xs)
  then show ?case by (auto simp: and_then_def bind_res_def split: sum.splits prod.splits)
qed

lemma for_each_upto:
  "(\<And>i. i < n \<Longrightarrow> f i (S i) = Inr (S (Suc i), E i)) \<Longrightarrow> m \<le> n \<Longrightarrow>
     for_each f [0..<m] (S 0) = Inr (S m, concat (map E [0..<m]))"
proof (induction m)
  case (Suc m)
  then show ?case by (simp add: for_each_append and_then_def)
qed simp

text \<open>Replacing a list element by element, from the left.\<close>

definition replaced :: "nat \<Rightarrow> (nat \<Rightarrow> 'a) \<Rightarrow> 'a list \<Rightarrow> 'a list" where
  "replaced m g xs = map g [0..<m] @ drop m xs"

lemma replaced_0 [simp]: "replaced 0 g xs = xs"
  by (simp add: replaced_def)

lemma replaced_all [simp]: "length xs = m \<Longrightarrow> replaced m g xs = map g [0..<m]"
  by (simp add: replaced_def)

lemma length_replaced [simp]: "m \<le> length xs \<Longrightarrow> length (replaced m g xs) = length xs"
  by (simp add: replaced_def)

lemma replaced_nth: "m < length xs \<Longrightarrow> replaced m g xs ! m = xs ! m"
  by (simp add: replaced_def nth_append)

lemma replaced_Suc: "m < length xs \<Longrightarrow> (replaced m g xs)[m := g m] = replaced (Suc m) g xs"
  by (simp add: replaced_def list_update_append Cons_nth_drop_Suc [symmetric])

text \<open>As many records as processors.\<close>

definition sized :: "trace_state \<Rightarrow> bool" where
  "sized s \<longleftrightarrow> length (tr_thread_data s) = unat (tr_smp_vcpus s) \<and>
     length (tr_block_cnt s) = unat (tr_smp_vcpus s)"

lemma thread_data_reset_eq:
  assumes "sized s"
  shows "thread_data_reset s = Inr (s\<lparr>
    tr_thread_data := map (\<lambda>i. reset_thread i (tr_thread_data s ! i)) (vcpus s),
    tr_block_cnt := map (\<lambda>_. []) (vcpus s)\<rparr>)"
proof -
  let ?n = "unat (tr_smp_vcpus s)" and ?g = "\<lambda>i. reset_thread i (tr_thread_data s ! i)"
  define S where "S m = s\<lparr>tr_thread_data := replaced m ?g (tr_thread_data s),
      tr_block_cnt := replaced m (\<lambda>_. []) (tr_block_cnt s)\<rparr>" for m
  have "block (map (\<lambda>i. block [on_thread i (upd (reset_thread i)), clear_blocks i]) [0..<?n]) (S 0) = Inr (S ?n)"
    by (rule loop_upto [where n = ?n])
       (use assms in \<open>simp_all add: S_def sized_def on_thread_def clear_blocks_def upd_def replaced_nth
          replaced_Suc [where g = ?g] replaced_Suc [where g = "\<lambda>_. []"]\<close>)
  then show ?thesis using assms by (simp add: thread_data_reset_def for_vcpus_def S_def vcpus_def sized_def)
qed

definition new_writer :: "trace_env \<Rightarrow> string \<Rightarrow> nat \<Rightarrow> sift_writer" where
  "new_writer env dir i = \<lparr>w_filename = vcpu_file dir i, w_response = response_file dir i,
     w_id = of_nat i, w_is_open = te_open env (vcpu_file dir i) (response_file dir i), w_calls = []\<rparr>"

lemma w_is_open_new [simp]:
  "w_is_open (new_writer env dir i) = te_open env (vcpu_file dir i) (response_file dir i)"
  by (simp add: new_writer_def)

definition open_errors :: "trace_env \<Rightarrow> string \<Rightarrow> nat \<Rightarrow> effect list" where
  "open_errors env dir i =
     (if te_open env (vcpu_file dir i) (response_file dir i) then []
      else [print_vcpu_error i (''Error: Unable to open the output file '' @ vcpu_file dir i)])"

lemma open_files_eq:
  assumes "sized s" "\<forall>t \<in> set (tr_thread_data s). td_output t = None"
  shows "for_each (openFile env dir) (vcpus s) s = Inr (s\<lparr>
    tr_thread_data := map (\<lambda>i. (tr_thread_data s ! i)\<lparr>td_output := Some (new_writer env dir i)\<rparr>) (vcpus s)\<rparr>,
    concat (map (open_errors env dir) (vcpus s)))"
proof -
  let ?n = "unat (tr_smp_vcpus s)"
  let ?g = "\<lambda>i. (tr_thread_data s ! i)\<lparr>td_output := Some (new_writer env dir i)\<rparr>"
  define S where "S m = s\<lparr>tr_thread_data := replaced m ?g (tr_thread_data s)\<rparr>" for m
  have "for_each (openFile env dir) [0..<?n] (S 0) = Inr (S ?n, concat (map (open_errors env dir) [0..<?n]))"
  proof (rule for_each_upto [where n = ?n])
    fix i assume i: "i < ?n"
    then have "td_output (tr_thread_data s ! i) = None" using assms by (simp add: sized_def)
    with i assms(1) show "openFile env dir i (S i) = Inr (S (Suc i), open_errors env dir i)"
      by (simp add: S_def sized_def openFile_def on_thread_def upd_def replaced_nth Let_def
          replaced_Suc [of i _ ?g] open_errors_def new_writer_def [symmetric])
  qed simp
  then show ?thesis using assms(1) by (simp add: S_def vcpus_def sized_def)
qed

lemma make_fifos_eq:
  "for_each (make_fifos dir) is s = Inr (s\<lparr>tr_trace_files := tr_trace_files s @
      concat (map (\<lambda>i. [vcpu_file dir i, response_file dir i]) is)\<rparr>,
    concat (map (\<lambda>i. [Mkfifo (vcpu_file dir i), Mkfifo (response_file dir i)]) is))"
  by (induction "is" arbitrary: s) (simp_all add: make_fifos_def and_then_def Let_def)

text \<open>A start that is not refused, in one equation.\<close>

definition started :: "trace_env \<Rightarrow> string \<Rightarrow> trace_state \<Rightarrow> trace_state" where
  "started env d s = s\<lparr>
     tr_thread_data := map (\<lambda>i. (reset_thread i (tr_thread_data s ! i))
                                  \<lparr>td_output := Some (new_writer env d i)\<rparr>) (vcpus s),
     tr_block_cnt := map (\<lambda>_. []) (vcpus s),
     tr_trace_files := tr_trace_files s @
       concat (map (\<lambda>i. [vcpu_file d i, response_file d i]) (vcpus s)),
     tr_recording := True, tr_current_mode := ModeIcount, tr_registered := True\<rparr>"

definition start_effects :: "trace_env \<Rightarrow> string \<Rightarrow> trace_state \<Rightarrow> effect list" where
  "start_effects env d s =
     concat (map (\<lambda>i. [Mkfifo (vcpu_file d i), Mkfifo (response_file d i)]) (vcpus s)) @
     [print_info (''recording to '' @ d)] @ concat (map (open_errors env d) (vcpus s)) @
     [Register On_Tb_Trans, Register On_Idle, Register On_Resume, Register On_Interrupt,
      Register On_Interrupt_Ret, Register On_Syscall, Register On_Syscall_Ret, Tb_Flush]"

lemma recorder_start_eq:
  assumes "sized s" "\<not> tr_recording s" "output_dir env dir s = Inr (d, s1)"
  shows "recorder_start env dir s = Inr (started env d s1, start_effects env d s1)"
proof -
  have s1: "\<exists>tpl. s1 = s\<lparr>tr_output_dir_template := tpl\<rparr>"
    using assms(3) by (cases s) (auto simp: output_dir_def split: option.splits)
  then have "sized s1" using assms(1) by (auto simp: sized_def)
  define s2 where "s2 = s1\<lparr>tr_thread_data := map (\<lambda>i. reset_thread i (tr_thread_data s1 ! i)) (vcpus s1),
      tr_block_cnt := map (\<lambda>_. []) (vcpus s1)\<rparr>"
  define s3 where "s3 = s2\<lparr>tr_trace_files := tr_trace_files s1 @
       concat (map (\<lambda>i. [vcpu_file d i, response_file d i]) (vcpus s1))\<rparr>"
  have 2: "thread_data_reset s1 = Inr s2"
    using thread_data_reset_eq [OF \<open>sized s1\<close>] by (simp add: s2_def)
  have v: "vcpus s2 = vcpus s1" "vcpus s3 = vcpus s1" by (simp_all add: s2_def s3_def vcpus_def)
  have 3: "for_each (make_fifos d) (vcpus s1) s2 = Inr (s3,
      concat (map (\<lambda>i. [Mkfifo (vcpu_file d i), Mkfifo (response_file d i)]) (vcpus s1)))"
    by (simp add: make_fifos_eq s3_def s2_def)
  have "sized s3" "\<forall>t \<in> set (tr_thread_data s3). td_output t = None"
    by (auto simp: s3_def s2_def sized_def vcpus_def reset_thread_def)
  from open_files_eq [OF this, of env d]
  have 4: "for_each (openFile env d) (vcpus s1) s3 = Inr (s3\<lparr>tr_thread_data :=
      map (\<lambda>i. (tr_thread_data s3 ! i)\<lparr>td_output := Some (new_writer env d i)\<rparr>) (vcpus s1)\<rparr>,
      concat (map (open_errors env d) (vcpus s1)))" by (simp add: v)
  have "map (\<lambda>i. (tr_thread_data s3 ! i)\<lparr>td_output := Some (new_writer env d i)\<rparr>) (vcpus s1) =
      map (\<lambda>i. (reset_thread i (tr_thread_data s1 ! i))\<lparr>td_output := Some (new_writer env d i)\<rparr>) (vcpus s1)"
    by (auto simp: s3_def s2_def vcpus_def)
  then show ?thesis
    using assms(2,3) by (simp add: recorder_start_def quietly_def and_then_def v 2 3 4 started_def start_effects_def)
      (simp add: s3_def s2_def)
qed

section \<open>The stop job and the counter job, in one equation\<close>

definition writer_left :: "nat \<Rightarrow> thread_data \<Rightarrow> (nat \<times> sift_writer) list" where
  "writer_left i t = (case td_output t of None \<Rightarrow> []
     | Some w \<Rightarrow> [(i, w\<lparr>w_calls := w_calls w @ [Abort]\<rparr>)])"

definition no_output :: "thread_data \<Rightarrow> thread_data" where
  "no_output t = t\<lparr>td_output := None\<rparr>"

definition stopped :: "trace_state \<Rightarrow> trace_state" where
  "stopped s = s\<lparr>
     tr_thread_data := map (\<lambda>i. no_output (tr_thread_data s ! i)) (vcpus s),
     tr_closed := tr_closed s @ concat (map (\<lambda>i. writer_left i (tr_thread_data s ! i)) (vcpus s)),
     tr_trace_files := [], tr_recording := False, tr_registered := False\<rparr>"

definition stop_effects :: "trace_env \<Rightarrow> trace_state \<Rightarrow> effect list" where
  "stop_effects env s =
     concat (map (\<lambda>i. if tr_current_mode s = ModeDetailed
       then [print_vcpu_info i (counters_text (tr_thread_data s ! i))] else []) (vcpus s)) @
     [print_vcpu_info 0 ''Hot blocks:'',
      Stdout (hot_blocks_text (sort_map (te_iteration env (tr_block_cnt s ! 0))))] @
     map Unlink (tr_trace_files s) @ [Set_Slomo_Rate 1, print_info ''Successfully reset trace.'']"

lemma close_files_eq:
  assumes "sized s"
  shows "for_each stop_vcpu (vcpus s) s = Inr (s\<lparr>
    tr_thread_data := map (\<lambda>i. no_output (tr_thread_data s ! i)) (vcpus s),
    tr_closed := tr_closed s @ concat (map (\<lambda>i. writer_left i (tr_thread_data s ! i)) (vcpus s))\<rparr>,
    concat (map (\<lambda>i. if tr_current_mode s = ModeDetailed
       then [print_vcpu_info i (counters_text (tr_thread_data s ! i))] else []) (vcpus s)))"
proof -
  let ?n = "unat (tr_smp_vcpus s)"
  let ?g = "\<lambda>i. no_output (tr_thread_data s ! i)"
  let ?E = "\<lambda>i. if tr_current_mode s = ModeDetailed
       then [print_vcpu_info i (counters_text (tr_thread_data s ! i))] else []"
  define S where "S m = s\<lparr>tr_thread_data := replaced m ?g (tr_thread_data s),
    tr_closed := tr_closed s @ concat (map (\<lambda>i. writer_left i (tr_thread_data s ! i)) [0..<m])\<rparr>" for m
  have "for_each stop_vcpu [0..<?n] (S 0) = Inr (S ?n, concat (map ?E [0..<?n]))"
  proof (rule for_each_upto [where n = ?n])
    fix i assume i: "i < ?n"
    have c: "counters_text (no_output t) = counters_text t" for t
      by (simp add: counters_text_def no_output_def)
    have "closeFile i (S i) = Inr (S (Suc i))"
      using i assms
      by (auto simp: closeFile_def S_def sized_def replaced_nth Let_def writer_left_def
          replaced_Suc [of i _ ?g, unfolded no_output_def] no_output_def [abs_def] split: option.splits)
    moreover have "tr_thread_data (S (Suc i)) ! i = no_output (tr_thread_data s ! i)"
      using i assms by (simp add: S_def replaced_def sized_def nth_append)
    moreover have "i < length (tr_thread_data (S (Suc i)))"
      using i assms by (simp add: S_def sized_def)
    ultimately show "stop_vcpu i (S i) = Inr (S (Suc i), ?E i)"
      by (simp add: stop_vcpu_def and_then_def quietly_def c) (simp add: S_def)
  qed simp
  then show ?thesis using assms by (simp add: S_def vcpus_def sized_def)
qed

lemma job_stop_eq:
  assumes "sized s" "0 < tr_smp_vcpus s"
  shows "job_stop env s = Inr (stopped s, stop_effects env s)"
proof -
  have "0 < length (tr_block_cnt s)"
    using assms by (simp add: sized_def unat_gt_0 word_neq_0_conv)
  then show ?thesis
    by (simp add: job_stop_def close_files_eq [OF assms(1)] and_then_def stopped_def stop_effects_def)
qed

lemma job_counters_eq:
  assumes "sized s"
  shows "job_counters s = Inr (s\<lparr>tr_thread_data :=
    map (\<lambda>i. reset_counters (tr_thread_data s ! i)) (vcpus s)\<rparr>)"
proof -
  let ?n = "unat (tr_smp_vcpus s)" and ?g = "\<lambda>i. reset_counters (tr_thread_data s ! i)"
  define S where "S m = s\<lparr>tr_thread_data := replaced m ?g (tr_thread_data s)\<rparr>" for m
  have "block (map (\<lambda>i. on_thread i (upd reset_counters)) [0..<?n]) (S 0) = Inr (S ?n)"
    by (rule loop_upto [where n = ?n])
       (use assms in \<open>simp_all add: S_def sized_def on_thread_def upd_def replaced_nth
          replaced_Suc [where g = ?g]\<close>)
  then show ?thesis using assms by (simp add: job_counters_def for_vcpus_def S_def vcpus_def sized_def)
qed

definition all_open :: "trace_state \<Rightarrow> bool" where
  "all_open s \<longleftrightarrow> (\<forall>i < unat (tr_smp_vcpus s). w_is_open (the (td_output (tr_thread_data s ! i))))"

lemma assert_open_eq:
  assumes "sized s" "\<forall>i < unat (tr_smp_vcpus s). td_output (tr_thread_data s ! i) \<noteq> None"
  shows "for_vcpus assert_open s = (if all_open s then Inr s else Inl Assert_Fail)"
proof -
  have "block (map assert_open [0..<m]) s =
    (if \<forall>i < m. w_is_open (the (td_output (tr_thread_data s ! i))) then Inr s else Inl Assert_Fail)"
    if "m \<le> unat (tr_smp_vcpus s)" for m
    using that
  proof (induction m)
    case (Suc m)
    obtain w where "td_output (tr_thread_data s ! m) = Some w" using Suc.prems assms(2) by (meson Suc_le_eq not_None_eq)
    then have "assert_open m s = (if w_is_open w then Inr s else Inl Assert_Fail)"
      using Suc.prems assms(1) by (simp add: assert_open_def sized_def)
    with Suc \<open>td_output _ = _\<close> show ?case by (auto simp: block_append less_Suc_eq)
  qed simp
  then show ?thesis by (simp add: for_vcpus_def all_open_def)
qed

end
