(* ===== verification/Trace_Translate.thy ===== *)
theory Trace_Translate
  imports Trace_Callbacks
begin

text \<open>
  \<open>host/trace/callbacks.cc\<close>, \<open>vcpu_tb_trans_cb\<close>: which callbacks are registered on a block
  that QEMU translates, and in which order; and the execution of a translated block, which
  runs the callbacks in the order in which the plugin interface documents it (a block's own
  callbacks at its entry, an instruction's callbacks before it, its memory callbacks after each
  access).
\<close>

section \<open>Blocks and registrations\<close>

text \<open>What \<open>qemu_plugin_tb_*\<close> and \<open>qemu_plugin_insn_*\<close> answer for a block.\<close>

record qemu_insn =
  insn_vaddr :: u64
  insn_ram_addr :: u64
  insn_next :: u64
  insn_is_cmpxchg :: bool

record qemu_tb =
  tb_insns :: "qemu_insn list"
  tb_vaddr :: u64
  tb_ram_addr :: u64
  tb_haddr :: u64
  tb_vaddr2 :: u64
  tb_haddr2 :: u64
  tb_ram_addr2 :: u64
  tb_next_pc :: u64
  tb_is_branch :: bool
  tb_is_pause :: bool

datatype exec_fn =
    Tb_Hot_Blocks | Tb_Count_Insns | Tb_Update_Target | Tb_Update_Fallthrough
  | Tb_Branch_Cacheonly | Tb_Branch_Detailed | Tb_Itlb | Tb_Itlb2 | Tb_Send_Icache
  | Tb_Vaddr2 | Tb_Send_Icache2 | Insn_Count_Insn | Insn_Branch | Insn_Branch_Ram_Addr
  | Insn_Pause | Insn_Cmpxchg | Insn_Update_Pc | Insn_Pc_Next | Insn_Itlb

datatype mem_fn = Mem_Update_Pc | Mem_Send_Cacheonly | Mem_Send_Detailed

text \<open>The callbacks registered on a block so far, with their user data.\<close>

record tb_callbacks =
  cb_tb :: "(exec_fn \<times> u64) list"
  cb_insn :: "(exec_fn \<times> u64) list list"
  cb_mem :: "(mem_fn \<times> u64) list list"

definition no_callbacks :: "nat \<Rightarrow> tb_callbacks" where
  "no_callbacks n = \<lparr>cb_tb = [], cb_insn = replicate n [], cb_mem = replicate n []\<rparr>"

definition reg_tb :: "exec_fn \<Rightarrow> u64 \<Rightarrow> tb_callbacks stmt" where
  "reg_tb f u = upd (\<lambda>r. r\<lparr>cb_tb := cb_tb r @ [(f, u)]\<rparr>)"

definition reg_insn :: "nat \<Rightarrow> exec_fn \<Rightarrow> u64 \<Rightarrow> tb_callbacks stmt" where
  "reg_insn i f u = upd (\<lambda>r. r\<lparr>cb_insn := (cb_insn r)[i := cb_insn r ! i @ [(f, u)]]\<rparr>)"

definition reg_mem :: "nat \<Rightarrow> mem_fn \<Rightarrow> u64 \<Rightarrow> tb_callbacks stmt" where
  "reg_mem i f u = upd (\<lambda>r. r\<lparr>cb_mem := (cb_mem r)[i := cb_mem r ! i @ [(f, u)]]\<rparr>)"

section \<open>Translation\<close>

text \<open>
  After the loop \<open>insn\<close> points to the last instruction, or is null when the block has none;
  an accessor of the null instruction is a null dereference.
\<close>

definition with_last :: "qemu_tb \<Rightarrow> (nat \<Rightarrow> qemu_insn \<Rightarrow> tb_callbacks stmt) \<Rightarrow> tb_callbacks stmt" where
  "with_last tb f =
     (if tb_insns tb = [] then fail_with Null_Deref
      else f (length (tb_insns tb) - 1) (last (tb_insns tb)))"

definition trans_memory_insn :: "nat \<Rightarrow> qemu_insn \<Rightarrow> tb_callbacks stmt" where
  "trans_memory_insn i insn = block
     [reg_insn i Insn_Count_Insn 0,
      reg_mem i Mem_Update_Pc (insn_vaddr insn),
      reg_mem i Mem_Send_Cacheonly (insn_ram_addr insn)]"

definition trans_memory :: "qemu_tb \<Rightarrow> tb_callbacks stmt" where
  "trans_memory tb = block
     [block (map (\<lambda>(i, insn). trans_memory_insn i insn) (enumerate 0 (tb_insns tb))),
      reg_tb Tb_Update_Target (tb_vaddr tb),
      with_last tb (\<lambda>_ insn. reg_tb Tb_Branch_Cacheonly (insn_ram_addr insn)),
      ifs (\<lambda>_. tb_is_branch tb) (block
        [assertc (\<lambda>_. tb_insns tb \<noteq> []),
         with_last tb (\<lambda>i insn. block
           [reg_insn i Insn_Branch (insn_vaddr insn),
            reg_insn i Insn_Branch_Ram_Addr (insn_ram_addr insn)]),
         reg_tb Tb_Update_Fallthrough (tb_next_pc tb)])]"

definition trans_detailed_insn :: "nat \<Rightarrow> qemu_insn \<Rightarrow> tb_callbacks stmt" where
  "trans_detailed_insn i insn = block
     [reg_insn i Insn_Update_Pc (insn_vaddr insn),
      reg_insn i Insn_Itlb (insn_ram_addr insn),
      reg_insn i Insn_Pc_Next (insn_next insn),
      reg_mem i Mem_Send_Detailed 0,
      ifs (\<lambda>_. insn_is_cmpxchg insn) (reg_insn i Insn_Cmpxchg 0)]"

definition trans_detailed :: "qemu_tb \<Rightarrow> tb_callbacks stmt" where
  "trans_detailed tb = block
     [block (map (\<lambda>(i, insn). trans_detailed_insn i insn) (enumerate 0 (tb_insns tb))),
      reg_tb Tb_Update_Target (tb_vaddr tb),
      reg_tb Tb_Branch_Detailed 0,
      reg_tb Tb_Itlb (tb_ram_addr tb),
      reg_tb Tb_Send_Icache (tb_haddr tb),
      ifs (\<lambda>_. tb_vaddr2 tb \<noteq> - 1) (block
        [assertc (\<lambda>_. tb_haddr2 tb \<noteq> 0),
         reg_tb Tb_Vaddr2 (tb_vaddr2 tb),
         reg_tb Tb_Itlb2 (tb_ram_addr2 tb),
         reg_tb Tb_Send_Icache2 (tb_haddr2 tb)]),
      ifs (\<lambda>_. tb_is_pause tb) (block
        [assertc (\<lambda>_. tb_insns tb \<noteq> []),
         with_last tb (\<lambda>i _. reg_insn i Insn_Pause 0)]),
      ifs (\<lambda>_. tb_is_branch tb) (block
        [assertc (\<lambda>_. tb_insns tb \<noteq> []),
         with_last tb (\<lambda>i insn. reg_insn i Insn_Branch (insn_vaddr insn)),
         reg_tb Tb_Update_Fallthrough (tb_next_pc tb)])]"

definition vcpu_tb_trans_cb :: "sift_mode \<Rightarrow> qemu_tb \<Rightarrow> fault + tb_callbacks" where
  "vcpu_tb_trans_cb mode tb = block
     [reg_tb Tb_Hot_Blocks (tb_vaddr tb),
      (case mode of
         ModeIcount \<Rightarrow> reg_tb Tb_Count_Insns (of_nat (length (tb_insns tb)))
       | ModeMemory \<Rightarrow> trans_memory tb
       | ModeDetailed \<Rightarrow> trans_detailed tb
       | _ \<Rightarrow> block [])] (no_callbacks (length (tb_insns tb)))"

section \<open>Running callbacks\<close>

text \<open>The callback a registration names.\<close>

fun exec_handler :: "exec_fn \<Rightarrow> u64 \<Rightarrow> qemu_view \<Rightarrow> u64 \<Rightarrow> thread_data stmt" where
  "exec_handler Tb_Hot_Blocks roi q u = block []"
| "exec_handler Tb_Count_Insns roi q u = tb_exec_count_insns u"
| "exec_handler Tb_Update_Target roi q u = tb_exec_update_target u"
| "exec_handler Tb_Update_Fallthrough roi q u = tb_exec_update_fallthrough u"
| "exec_handler Tb_Branch_Cacheonly roi q u = tb_exec_branch_cacheonly u"
| "exec_handler Tb_Branch_Detailed roi q u = tb_exec_branch_detailed roi q"
| "exec_handler Tb_Itlb roi q u = tb_exec_itlb roi q u"
| "exec_handler Tb_Itlb2 roi q u = tb_exec_itlb2 roi q u"
| "exec_handler Tb_Send_Icache roi q u = tb_exec_send_icache roi q u"
| "exec_handler Tb_Vaddr2 roi q u = tb_exec_vaddr2 u"
| "exec_handler Tb_Send_Icache2 roi q u = tb_exec_send_icache2 roi q u"
| "exec_handler Insn_Count_Insn roi q u = insn_exec_count_insn"
| "exec_handler Insn_Branch roi q u = insn_exec_branch u"
| "exec_handler Insn_Branch_Ram_Addr roi q u = insn_exec_branch_ram_addr u"
| "exec_handler Insn_Pause roi q u = insn_exec_pause"
| "exec_handler Insn_Cmpxchg roi q u = insn_exec_cmpxchg"
| "exec_handler Insn_Update_Pc roi q u = insn_exec_update_pc roi q u"
| "exec_handler Insn_Pc_Next roi q u = insn_exec_pc_next roi q u"
| "exec_handler Insn_Itlb roi q u = insn_exec_itlb roi q u"

fun mem_handler :: "mem_fn \<Rightarrow> u64 \<Rightarrow> u64 \<Rightarrow> qemu_view \<Rightarrow> u64 \<Rightarrow> u64 \<Rightarrow> thread_data stmt" where
  "mem_handler Mem_Update_Pc roi mg q u vaddr = mem_update_pc u"
| "mem_handler Mem_Send_Cacheonly roi mg q u vaddr = mem_send_cacheonly u q vaddr"
| "mem_handler Mem_Send_Detailed roi mg q u vaddr = mem_send_detailed roi mg q vaddr"

text \<open>
  One execution of (a prefix of) a block on one processor: the view at its entry, and for each
  instruction started its view and the accesses it makes.
\<close>

type_synonym insn_run = "qemu_view \<times> (qemu_view \<times> u64) list"

definition run_insn ::
    "u64 \<Rightarrow> u64 \<Rightarrow> insn_run \<times> (exec_fn \<times> u64) list \<times> (mem_fn \<times> u64) list \<Rightarrow> thread_data stmt" where
  "run_insn roi mg = (\<lambda>((q, accs), execs, mems). block
     [block (map (\<lambda>(f, u). exec_handler f roi q u) execs),
      block (map (\<lambda>(qa, va). block (map (\<lambda>(f, u). mem_handler f roi mg qa u va) mems)) accs)])"

definition run_block ::
    "u64 \<Rightarrow> u64 \<Rightarrow> tb_callbacks \<Rightarrow> qemu_view \<Rightarrow> insn_run list \<Rightarrow> thread_data stmt" where
  "run_block roi mg r q runs = block
     [block (map (\<lambda>(f, u). exec_handler f roi q u) (cb_tb r)),
      block (map (run_insn roi mg) (zip runs (zip (cb_insn r) (cb_mem r))))]"

text \<open>The block-entry callback that counts hot blocks works on \<open>block_cnt\<close>.\<close>

definition run_hot_blocks :: "nat \<Rightarrow> qemu_view \<Rightarrow> tb_callbacks \<Rightarrow> trace_state stmt" where
  "run_hot_blocks i q r =
     block (map (\<lambda>(f, u). if f = Tb_Hot_Blocks then tb_exec_hot_blocks i q u else block []) (cb_tb r))"

definition exec_block ::
    "nat \<Rightarrow> tb_callbacks \<Rightarrow> qemu_view \<Rightarrow> insn_run list \<Rightarrow> trace_state stmt" where
  "exec_block i r q runs = block
     [run_hot_blocks i q r,
      (\<lambda>s. on_thread i (run_block (tr_roi_cr3 s) (tr_magic s) r q runs) s)]"

section \<open>What is registered\<close>

text \<open>A loop that registers callbacks on each instruction.\<close>

lemma reg_loop:
  assumes body: "\<And>i x r. i < length (cb_insn r) \<Longrightarrow> i < length (cb_mem r) \<Longrightarrow>
      body i x r = Inr (r\<lparr>cb_insn := (cb_insn r)[i := cb_insn r ! i @ fi x],
                          cb_mem := (cb_mem r)[i := cb_mem r ! i @ fm x]\<rparr>)"
  shows "length ps = n \<Longrightarrow> length qs = n \<Longrightarrow> cb_insn r = ps @ replicate (length xs) [] \<Longrightarrow>
    cb_mem r = qs @ replicate (length xs) [] \<Longrightarrow>
    block (map (\<lambda>(i, x). body i x) (enumerate n xs)) r =
      Inr (r\<lparr>cb_insn := ps @ map fi xs, cb_mem := qs @ map fm xs\<rparr>)"
proof (induction xs arbitrary: n ps qs r)
  case Nil
  then show ?case by (cases r) simp
next
  case (Cons x xs)
  let ?r = "r\<lparr>cb_insn := ps @ fi x # replicate (length xs) [], cb_mem := qs @ fm x # replicate (length xs) []\<rparr>"
  have "body n x r = Inr ?r"
    using Cons.prems by (simp add: body nth_append list_update_append)
  moreover have "block (map (\<lambda>(i, x). body i x) (enumerate (Suc n) xs)) ?r =
      Inr (?r\<lparr>cb_insn := (ps @ [fi x]) @ map fi xs, cb_mem := (qs @ [fm x]) @ map fm xs\<rparr>)"
    using Cons.prems by (intro Cons.IH) simp_all
  ultimately show ?case by simp
qed

definition memory_execs :: "qemu_insn \<Rightarrow> (exec_fn \<times> u64) list" where
  "memory_execs insn = [(Insn_Count_Insn, 0)]"

definition memory_mems :: "qemu_insn \<Rightarrow> (mem_fn \<times> u64) list" where
  "memory_mems insn = [(Mem_Update_Pc, insn_vaddr insn), (Mem_Send_Cacheonly, insn_ram_addr insn)]"

definition detailed_execs :: "qemu_insn \<Rightarrow> (exec_fn \<times> u64) list" where
  "detailed_execs insn =
     [(Insn_Update_Pc, insn_vaddr insn), (Insn_Itlb, insn_ram_addr insn), (Insn_Pc_Next, insn_next insn)]
     @ (if insn_is_cmpxchg insn then [(Insn_Cmpxchg, 0)] else [])"

definition add_last :: "'a list \<Rightarrow> 'a list list \<Rightarrow> 'a list list" where
  "add_last ys xss = (if xss = [] then [] else butlast xss @ [last xss @ ys])"

lemma add_last_update:
  "xss \<noteq> [] \<Longrightarrow> xss[length xss - Suc 0 := xss ! (length xss - Suc 0) @ ys] = add_last ys xss"
  by (cases xss rule: rev_cases) (simp_all add: add_last_def list_update_append nth_append)

lemma length_add_last [simp]: "length (add_last ys xss) = length xss"
  by (simp add: add_last_def)

lemma add_last_empty [simp]: "add_last [] xss = xss"
  by (simp add: add_last_def)

lemma add_last_add_last: "add_last zs (add_last ys xss) = add_last (ys @ zs) xss"
  by (simp add: add_last_def)

lemma map_ne_add_last [simp]: "add_last ys xss = [] \<longleftrightarrow> xss = []"
  by (simp add: add_last_def)

lemma reg_last:
  "cb_insn r \<noteq> [] \<Longrightarrow> n = length (cb_insn r) \<Longrightarrow>
     reg_insn (n - Suc 0) f u r = Inr (r\<lparr>cb_insn := add_last [(f, u)] (cb_insn r)\<rparr>)"
  by (simp add: reg_insn_def upd_def add_last_update)

lemma memory_loop:
  "cb_insn r = replicate (length xs) [] \<Longrightarrow> cb_mem r = replicate (length xs) [] \<Longrightarrow>
   block (map (\<lambda>(i, x). trans_memory_insn i x) (enumerate 0 xs)) r =
     Inr (r\<lparr>cb_insn := map memory_execs xs, cb_mem := map memory_mems xs\<rparr>)"
  by (rule reg_loop [where ps = "[]" and qs = "[]", simplified])
     (simp_all add: trans_memory_insn_def run_simps reg_insn_def reg_mem_def memory_execs_def memory_mems_def)

lemma detailed_loop:
  "cb_insn r = replicate (length xs) [] \<Longrightarrow> cb_mem r = replicate (length xs) [] \<Longrightarrow>
   block (map (\<lambda>(i, x). trans_detailed_insn i x) (enumerate 0 xs)) r =
     Inr (r\<lparr>cb_insn := map detailed_execs xs, cb_mem := map (\<lambda>_. [(Mem_Send_Detailed, 0)]) xs\<rparr>)"
  by (rule reg_loop [where ps = "[]" and qs = "[]", simplified])
     (simp_all add: trans_detailed_insn_def run_simps reg_insn_def reg_mem_def detailed_execs_def)

text \<open>The registrations of each mode, in closed form.\<close>

lemma trans_icount:
  "vcpu_tb_trans_cb ModeIcount tb =
     Inr \<lparr>cb_tb = [(Tb_Hot_Blocks, tb_vaddr tb), (Tb_Count_Insns, of_nat (length (tb_insns tb)))],
          cb_insn = replicate (length (tb_insns tb)) [], cb_mem = replicate (length (tb_insns tb)) []\<rparr>"
  by (simp add: vcpu_tb_trans_cb_def run_simps reg_tb_def no_callbacks_def)

lemma trans_memory_mode:
  "tb_insns tb \<noteq> [] \<Longrightarrow> vcpu_tb_trans_cb ModeMemory tb =
     Inr \<lparr>cb_tb = [(Tb_Hot_Blocks, tb_vaddr tb), (Tb_Update_Target, tb_vaddr tb),
                   (Tb_Branch_Cacheonly, insn_ram_addr (last (tb_insns tb)))] @
                  (if tb_is_branch tb then [(Tb_Update_Fallthrough, tb_next_pc tb)] else []),
          cb_insn = add_last (if tb_is_branch tb
                     then [(Insn_Branch, insn_vaddr (last (tb_insns tb))),
                           (Insn_Branch_Ram_Addr, insn_ram_addr (last (tb_insns tb)))] else [])
                     (map memory_execs (tb_insns tb)),
          cb_mem = map memory_mems (tb_insns tb)\<rparr>"
  by (simp add: vcpu_tb_trans_cb_def trans_memory_def run_simps reg_tb_def no_callbacks_def memory_loop
      with_last_def reg_last add_last_add_last)

lemma trans_detailed_mode:
  "tb_insns tb \<noteq> [] \<Longrightarrow> tb_vaddr2 tb \<noteq> - 1 \<longrightarrow> tb_haddr2 tb \<noteq> 0 \<Longrightarrow> vcpu_tb_trans_cb ModeDetailed tb =
     Inr \<lparr>cb_tb = [(Tb_Hot_Blocks, tb_vaddr tb), (Tb_Update_Target, tb_vaddr tb),
                   (Tb_Branch_Detailed, 0), (Tb_Itlb, tb_ram_addr tb), (Tb_Send_Icache, tb_haddr tb)] @
                  (if tb_vaddr2 tb \<noteq> - 1 then [(Tb_Vaddr2, tb_vaddr2 tb), (Tb_Itlb2, tb_ram_addr2 tb),
                      (Tb_Send_Icache2, tb_haddr2 tb)] else []) @
                  (if tb_is_branch tb then [(Tb_Update_Fallthrough, tb_next_pc tb)] else []),
          cb_insn = add_last ((if tb_is_pause tb then [(Insn_Pause, 0)] else []) @
                     (if tb_is_branch tb then [(Insn_Branch, insn_vaddr (last (tb_insns tb)))] else []))
                     (map detailed_execs (tb_insns tb)),
          cb_mem = map (\<lambda>_. [(Mem_Send_Detailed, 0)]) (tb_insns tb)\<rparr>"
  by (simp add: vcpu_tb_trans_cb_def trans_detailed_def run_simps reg_tb_def no_callbacks_def detailed_loop
      with_last_def reg_last add_last_add_last)

lemma trans_other:
  "mode \<notin> {ModeIcount, ModeMemory, ModeDetailed} \<Longrightarrow> vcpu_tb_trans_cb mode tb =
     Inr \<lparr>cb_tb = [(Tb_Hot_Blocks, tb_vaddr tb)], cb_insn = replicate (length (tb_insns tb)) [],
          cb_mem = replicate (length (tb_insns tb)) []\<rparr>"
  by (cases mode) (simp_all add: vcpu_tb_trans_cb_def run_simps reg_tb_def no_callbacks_def)

end
