(* ===== verification/Trace_Threads.thy ===== *)
theory Trace_Threads
  imports Trace_Translate
begin

text \<open>
  What one processor's callbacks keep, whatever callbacks run and in whatever order: the
  counters account for what was reported, the idle flag for the \<open>VCPUIdle\<close> and
  \<open>VCPUResume\<close> calls, and the flow-control target bounds the instructions between two
  synchronisations. Each is an invariant of the machine whose events are callback runs.
\<close>

section \<open>Events of one processor\<close>

datatype thread_event =
    Exec exec_fn u64 qemu_view
  | Mem mem_fn u64 qemu_view u64
  | Idle sift_mode
  | Resume
  | Interrupt_Or_Ret sift_mode

fun thread_step :: "u64 \<Rightarrow> u64 \<Rightarrow> thread_event \<Rightarrow> thread_data stmt" where
  "thread_step roi mg (Exec f u q) = exec_handler f roi q u"
| "thread_step roi mg (Mem f u q va) = mem_handler f roi mg q u va"
| "thread_step roi mg (Idle mode) = vcpu_idle_cb mode"
| "thread_step roi mg Resume = vcpu_resume_cb"
| "thread_step roi mg (Interrupt_Or_Ret mode) = vcpu_interrupt_cb mode"

text \<open>A processor event that is not part of a block.\<close>

fun cpu_event :: "thread_event \<Rightarrow> bool" where
  "cpu_event (Exec f u q) = False"
| "cpu_event (Mem f u q va) = False"
| "cpu_event e = True"

definition insn_events ::
    "insn_run \<times> (exec_fn \<times> u64) list \<times> (mem_fn \<times> u64) list \<Rightarrow> thread_event list" where
  "insn_events = (\<lambda>((q, accs), execs, mems).
     map (\<lambda>(f, u). Exec f u q) execs @
     concat (map (\<lambda>(qa, va). map (\<lambda>(f, u). Mem f u qa va) mems) accs))"

definition block_events :: "tb_callbacks \<Rightarrow> qemu_view \<Rightarrow> insn_run list \<Rightarrow> thread_event list" where
  "block_events r q runs =
     map (\<lambda>(f, u). Exec f u q) (cb_tb r) @
     concat (map insn_events (zip runs (zip (cb_insn r) (cb_mem r))))"

lemma block_concat: "block (map (\<lambda>x. block (g x)) xs) s = block (concat (map g xs)) s"
proof (induction xs arbitrary: s)
  case (Cons x xs)
  then show ?case by (cases "block (g x) s") (simp_all add: block_append)
qed simp

lemma run_concat: "block (map (\<lambda>x. run step (g x)) xs) s = run step (concat (map g xs)) s"
  by (simp add: run_def block_concat map_concat comp_def)

lemma run_map: "run step (map g xs) s = block (map (\<lambda>x. step (g x)) xs) s"
  by (simp add: run_def comp_def)

lemma run_insn_events: "run_insn roi mg z s = run (thread_step roi mg) (insn_events z) s"
proof -
  obtain q accs execs mems where z: "z = ((q, accs), execs, mems)" by (cases z) auto
  have m: "block (map (\<lambda>x. mem_handler (fst x) roi mg qa (snd x) va) mems) =
      run (thread_step roi mg) (map (\<lambda>x. Mem (fst x) (snd x) qa va) mems)" for qa va
    by (rule ext) (simp add: run_map)
  have "run_insn roi mg z s = block
     [run (thread_step roi mg) (map (\<lambda>(f, u). Exec f u q) execs),
      block (map (\<lambda>x. run (thread_step roi mg)
        ((\<lambda>(qa, va). map (\<lambda>(f, u). Mem f u qa va) mems) x)) accs)] s"
    by (simp add: run_insn_def z run_map case_prod_unfold m cong: map_cong)
  then show ?thesis
    by (simp add: insn_events_def z run_concat run_append bind_res_def split: sum.split)
qed

text \<open>Executing a block is running its events.\<close>

lemma run_block_events: "run_block roi mg r q runs s = run (thread_step roi mg) (block_events r q runs) s"
proof -
  have i: "run_insn roi mg = (\<lambda>z. run (thread_step roi mg) (insn_events z))"
    by (intro ext) (rule run_insn_events)
  have "run_block roi mg r q runs s = block
     [run (thread_step roi mg) (map (\<lambda>(f, u). Exec f u q) (cb_tb r)),
      block (map (\<lambda>z. run (thread_step roi mg) (insn_events z)) (zip runs (zip (cb_insn r) (cb_mem r))))] s"
    by (simp add: run_block_def run_map case_prod_unfold i)
  then show ?thesis
    by (simp add: block_events_def run_concat run_append bind_res_def split: sum.split)
qed

lemmas handler_defs =
  tb_exec_count_insns_def insn_exec_count_insn_def insn_exec_branch_def sync_and_retarget_def
  insn_exec_pause_def insn_exec_cmpxchg_def insn_exec_branch_ram_addr_def mem_update_pc_def
  add_cacheonly_def sync_if_over_ff_def mem_send_cacheonly_def tb_exec_update_target_def
  tb_exec_update_fallthrough_def clear_branch_def tb_exec_branch_cacheonly_def tb_exec_itlb_def
  tb_exec_itlb2_def insn_exec_update_pc_def insn_exec_pc_next_def insn_exec_itlb_def
  mem_send_detailed_def tb_exec_branch_detailed_def tb_exec_send_icache_def tb_exec_vaddr2_def
  tb_exec_send_icache2_def vcpu_interrupt_cb_def vcpu_idle_cb_def vcpu_resume_cb_def

declare block.simps [simp del]

text \<open>Case analysis over all callbacks.\<close>

lemma thread_step_cases:
  assumes
    "\<And>u q. P (Exec Tb_Hot_Blocks u q)"
    "\<And>u q. P (Exec Tb_Count_Insns u q)"
    "\<And>u q. P (Exec Tb_Update_Target u q)"
    "\<And>u q. P (Exec Tb_Update_Fallthrough u q)"
    "\<And>u q. P (Exec Tb_Branch_Cacheonly u q)"
    "\<And>u q. P (Exec Tb_Branch_Detailed u q)"
    "\<And>u q. P (Exec Tb_Itlb u q)"
    "\<And>u q. P (Exec Tb_Itlb2 u q)"
    "\<And>u q. P (Exec Tb_Send_Icache u q)"
    "\<And>u q. P (Exec Tb_Vaddr2 u q)"
    "\<And>u q. P (Exec Tb_Send_Icache2 u q)"
    "\<And>u q. P (Exec Insn_Count_Insn u q)"
    "\<And>u q. P (Exec Insn_Branch u q)"
    "\<And>u q. P (Exec Insn_Branch_Ram_Addr u q)"
    "\<And>u q. P (Exec Insn_Pause u q)"
    "\<And>u q. P (Exec Insn_Cmpxchg u q)"
    "\<And>u q. P (Exec Insn_Update_Pc u q)"
    "\<And>u q. P (Exec Insn_Pc_Next u q)"
    "\<And>u q. P (Exec Insn_Itlb u q)"
    "\<And>u q va. P (Mem Mem_Update_Pc u q va)"
    "\<And>u q va. P (Mem Mem_Send_Cacheonly u q va)"
    "\<And>u q va. P (Mem Mem_Send_Detailed u q va)"
    "\<And>m. P (Idle m)" "P Resume" "\<And>m. P (Interrupt_Or_Ret m)"
  shows "P e"
proof (cases e)
  case (Exec f u q)
  then show ?thesis using assms by (cases f) simp_all
next
  case (Mem f u q va)
  then show ?thesis using assms by (cases f) simp_all
qed (use assms in simp_all)

section \<open>Idle and resume calls alternate\<close>

text \<open>The state of the processor as the reader of the trace sees it; \<open>None\<close> when a call repeats.\<close>

fun idle_track :: "bool \<Rightarrow> sift_call list \<Rightarrow> bool option" where
  "idle_track b [] = Some b"
| "idle_track b (c # cs) =
     (if c = VCPUIdle then (if b then None else idle_track True cs)
      else if c = VCPUResume then (if b then idle_track False cs else None)
      else idle_track b cs)"

lemma idle_track_append: "idle_track b (xs @ ys) = Option.bind (idle_track b xs) (\<lambda>b'. idle_track b' ys)"
  by (induction xs arbitrary: b) auto

definition idle_inv :: "thread_data \<Rightarrow> bool" where
  "idle_inv t \<longleftrightarrow> (\<forall>w. td_output t = Some w \<longrightarrow> idle_track True (w_calls w) = Some (td_idle t))"

lemma idle_step: "idle_inv t \<Longrightarrow> wlp (thread_step roi mg e) idle_inv t"
  by (induction e rule: thread_step_cases)
     (auto simp: handler_defs wp_simps idle_inv_def idle_track_append)

interpretation idle: invariant_machine "thread_step roi mg" "\<lambda>_. True" idle_inv
  by unfold_locales (auto dest: wlpD [OF idle_step])

section \<open>Every executed instruction is accounted for\<close>

definition cacheonly_total :: "sift_call list \<Rightarrow> u64" where
  "cacheonly_total cs = sum_list (map (\<lambda>c. case c of CacheOnly n _ _ _ \<Rightarrow> n | _ \<Rightarrow> 0) cs)"

definition icount_total :: "sift_call list \<Rightarrow> u64" where
  "icount_total cs = sum_list (map (\<lambda>c. case c of InstructionCount n \<Rightarrow> n | _ \<Rightarrow> 0) cs)"

lemma totals_append [simp]:
  "cacheonly_total (xs @ ys) = cacheonly_total xs + cacheonly_total ys"
  "icount_total (xs @ ys) = icount_total xs + icount_total ys"
  by (simp_all add: cacheonly_total_def icount_total_def)

lemma totals_Nil [simp]: "cacheonly_total [] = 0" "icount_total [] = 0"
  by (simp_all add: cacheonly_total_def icount_total_def)

lemma totals_Cons [simp]:
  "cacheonly_total (c # xs) = (case c of CacheOnly n _ _ _ \<Rightarrow> n | _ \<Rightarrow> 0) + cacheonly_total xs"
  "icount_total (c # xs) = (case c of InstructionCount n \<Rightarrow> n | _ \<Rightarrow> 0) + icount_total xs"
  by (simp_all add: cacheonly_total_def icount_total_def)

definition pending_total :: "thread_data \<Rightarrow> u64" where
  "pending_total t = cacheonly_total (calls_of t) + td_icount_cacheonly_pending t"

definition insn_weight :: "thread_event \<Rightarrow> u64" where
  "insn_weight e = (case e of Exec Insn_Count_Insn _ _ \<Rightarrow> 1 | _ \<Rightarrow> 0)"

lemma pending_step:
  "wlp (thread_step roi mg e) (\<lambda>t'. pending_total t' = pending_total t + insn_weight e) t"
  by (induction e rule: thread_step_cases) (auto simp: handler_defs wp_simps pending_total_def insn_weight_def calls_of_def)

interpretation pending: measured_machine "thread_step roi mg" "\<lambda>_. True" insn_weight pending_total
  by unfold_locales (auto dest: wlpD [OF pending_step])

definition cacheonly_inv :: "thread_data \<Rightarrow> bool" where
  "cacheonly_inv t \<longleftrightarrow> cacheonly_total (calls_of t) = td_icount_cacheonly t"

lemma cacheonly_step:
  "cacheonly_inv t \<Longrightarrow> wlp (thread_step roi mg e) cacheonly_inv t"
  by (induction e rule: thread_step_cases) (auto simp: handler_defs wp_simps cacheonly_inv_def calls_of_def)

interpretation cacheonly: invariant_machine "thread_step roi mg" "\<lambda>_. True" cacheonly_inv
  by unfold_locales (auto dest: wlpD [OF cacheonly_step])

text \<open>The callbacks of the cache-only mode that report instructions.\<close>

definition not_cacheonly :: "thread_event \<Rightarrow> bool" where
  "not_cacheonly e \<longleftrightarrow>
     (case e of Exec f _ _ \<Rightarrow> f \<noteq> Tb_Branch_Cacheonly | Mem f _ _ _ \<Rightarrow> f \<noteq> Mem_Send_Cacheonly | _ \<Rightarrow> True)"

definition block_weight :: "thread_event \<Rightarrow> u64" where
  "block_weight e = (case e of Exec Tb_Count_Insns u _ \<Rightarrow> u | _ \<Rightarrow> 0)"

definition reported_total :: "thread_data \<Rightarrow> u64" where
  "reported_total t = icount_total (calls_of t) + td_icount_reported t"

lemma reported_step:
  "not_cacheonly e \<Longrightarrow>
     wlp (thread_step roi mg e) (\<lambda>t'. reported_total t' = reported_total t + block_weight e) t"
  by (induction e rule: thread_step_cases) (auto simp: handler_defs wp_simps reported_total_def
      block_weight_def calls_of_def not_cacheonly_def)

interpretation reported: measured_machine "thread_step roi mg" not_cacheonly block_weight reported_total
  by unfold_locales (auto dest: wlpD [OF reported_step])

definition detailed_inv :: "thread_data \<Rightarrow> bool" where
  "detailed_inv t \<longleftrightarrow> td_icount_detailed t = td_icount_user t + td_icount_other t"

lemma detailed_step:
  "detailed_inv t \<Longrightarrow> wlp (thread_step roi mg e) detailed_inv t"
  by (induction e rule: thread_step_cases) (auto simp: handler_defs wp_simps detailed_inv_def)

interpretation detailed: invariant_machine "thread_step roi mg" "\<lambda>_. True" detailed_inv
  by unfold_locales (auto dest: wlpD [OF detailed_step])

end
