(* ===== verification/Trace_Blocks.thy ===== *)
theory Trace_Blocks
  imports Trace_Threads
begin

text \<open>
  What the callbacks do together when blocks are translated by \<open>vcpu_tb_trans_cb\<close> and then
  executed: no callback faults, every branch is reported once with its outcome, and the
  synchronisation target bounds the instructions of the detailed mode.
\<close>

section \<open>Executing translated blocks is safe\<close>

text \<open>Between blocks: there is a writer, and a recorded branch has its fall-through address.\<close>

definition br_inv :: "thread_data \<Rightarrow> bool" where
  "br_inv t \<longleftrightarrow> td_output t \<noteq> None \<and> (td_br_addr t \<noteq> 0 \<longrightarrow> td_br_fallthrough t \<noteq> 0)"

text \<open>While the instructions of a branching block run.\<close>

definition in_branch_block :: "thread_data \<Rightarrow> bool" where
  "in_branch_block t \<longleftrightarrow> td_output t \<noteq> None \<and> td_br_fallthrough t \<noteq> 0"

definition no_branch_event :: "thread_event \<Rightarrow> bool" where
  "no_branch_event e \<longleftrightarrow> (case e of
     Exec f u _ \<Rightarrow> f \<noteq> Insn_Branch \<and> (f = Tb_Update_Fallthrough \<longrightarrow> u \<noteq> 0) | _ \<Rightarrow> True)"

definition insn_phase_event :: "thread_event \<Rightarrow> bool" where
  "insn_phase_event e \<longleftrightarrow> (case e of
     Exec f u _ \<Rightarrow> f \<noteq> Tb_Branch_Cacheonly \<and> f \<noteq> Tb_Branch_Detailed \<and> (f = Tb_Update_Fallthrough \<longrightarrow> u \<noteq> 0)
   | _ \<Rightarrow> True)"

lemma br_step: "no_branch_event e \<Longrightarrow> br_inv t \<Longrightarrow> wp (thread_step roi mg e) br_inv t"
  by (induction e rule: thread_step_cases) (auto simp: handler_defs wp_simps br_inv_def no_branch_event_def)

lemma branch_block_step:
  "insn_phase_event e \<Longrightarrow> in_branch_block t \<Longrightarrow> wp (thread_step roi mg e) in_branch_block t"
  by (induction e rule: thread_step_cases)
     (auto simp: handler_defs wp_simps in_branch_block_def insn_phase_event_def)

interpretation br: safe_machine "thread_step roi mg" no_branch_event br_inv
  by (rule safe_machineI) (rule br_step)

interpretation branch_block: safe_machine "thread_step roi mg" insn_phase_event in_branch_block
  by (rule safe_machineI) (rule branch_block_step)

text \<open>The events of a block: its entry callbacks, then callbacks registered on instructions.\<close>

definition entry_events :: "tb_callbacks \<Rightarrow> qemu_view \<Rightarrow> thread_event list" where
  "entry_events r q = map (\<lambda>(f, u). Exec f u q) (cb_tb r)"

definition body_events :: "tb_callbacks \<Rightarrow> insn_run list \<Rightarrow> thread_event list" where
  "body_events r runs = concat (map insn_events (zip runs (zip (cb_insn r) (cb_mem r))))"

lemma block_events_split: "block_events r q runs = entry_events r q @ body_events r runs"
  by (simp add: block_events_def entry_events_def body_events_def)

lemma body_event_cases:
  assumes "e \<in> set (body_events r runs)"
  obtains (exec) f u q xs where "e = Exec f u q" "(f, u) \<in> set xs" "xs \<in> set (cb_insn r)"
  | (mem) f u q va xs where "e = Mem f u q va" "(f, u) \<in> set xs" "xs \<in> set (cb_mem r)"
proof -
  from assms obtain q accs execs mems where
    "((q, accs), execs, mems) \<in> set (zip runs (zip (cb_insn r) (cb_mem r)))"
    and e: "e \<in> set (insn_events ((q, accs), execs, mems))"
    by (auto simp: body_events_def)
  then have "execs \<in> set (cb_insn r)" "mems \<in> set (cb_mem r)"
    by (meson set_zip_leftD set_zip_rightD)+
  with e that show thesis by (auto simp: insn_events_def)
qed

lemma set_add_last: "xs \<in> set (add_last ys xss) \<Longrightarrow> xs \<in> set xss \<or> (\<exists>zs \<in> set xss. xs = zs @ ys)"
  by (auto simp: add_last_def split: if_splits dest: in_set_butlastD)

text \<open>The blocks QEMU hands over: not empty, a second page has a host address, and a branch's
  fall-through address is not 0.\<close>

definition tb_ok :: "qemu_tb \<Rightarrow> bool" where
  "tb_ok tb \<longleftrightarrow> tb_insns tb \<noteq> [] \<and> (tb_vaddr2 tb \<noteq> - 1 \<longrightarrow> tb_haddr2 tb \<noteq> 0) \<and>
     (tb_is_branch tb \<longrightarrow> tb_next_pc tb \<noteq> 0)"

lemma trans_ok: "tb_ok tb \<Longrightarrow> \<exists>r. vcpu_tb_trans_cb mode tb = Inr r"
  by (cases "mode \<in> {ModeIcount, ModeMemory, ModeDetailed}")
     (auto simp: tb_ok_def trans_icount trans_memory_mode trans_detailed_mode trans_other)

lemma trans_phases:
  assumes "tb_ok tb" "vcpu_tb_trans_cb mode tb = Inr r"
  shows "(\<forall>e \<in> set (block_events r q runs). no_branch_event e) \<or>
    (\<exists>xs u. cb_tb r = xs @ [(Tb_Update_Fallthrough, u)] \<and> u \<noteq> 0 \<and>
       (\<forall>f u. (f, u) \<in> set xs \<longrightarrow> no_branch_event (Exec f u q)) \<and>
       (\<forall>e \<in> set (body_events r runs). insn_phase_event e))"
proof (cases "tb_is_branch tb \<and> mode \<in> {ModeMemory, ModeDetailed}")
  case True
  then have "\<exists>xs u. cb_tb r = xs @ [(Tb_Update_Fallthrough, u)] \<and> u \<noteq> 0 \<and>
       (\<forall>f u. (f, u) \<in> set xs \<longrightarrow> no_branch_event (Exec f u q))"
    using assms
    by (auto simp: tb_ok_def trans_memory_mode trans_detailed_mode no_branch_event_def split: if_splits)
  moreover have "insn_phase_event e" if "e \<in> set (body_events r runs)" for e
    using that True assms
    by (cases rule: body_event_cases)
       (auto simp: tb_ok_def trans_memory_mode trans_detailed_mode insn_phase_event_def
         memory_execs_def detailed_execs_def dest!: set_add_last split: if_splits)
  ultimately show ?thesis by blast
next
  case False
  have "no_branch_event e" if "e \<in> set (body_events r runs)" for e
    using that False assms
    by (cases rule: body_event_cases; cases mode)
       (auto simp: tb_ok_def trans_icount trans_memory_mode trans_detailed_mode trans_other no_branch_event_def
         memory_execs_def detailed_execs_def dest!: set_add_last split: if_splits)
  moreover have "no_branch_event e" if "e \<in> set (entry_events r q)" for e
    using that False assms
    by (cases mode)
       (auto simp: entry_events_def tb_ok_def trans_icount trans_memory_mode trans_detailed_mode trans_other
         no_branch_event_def split: if_splits)
  ultimately show ?thesis by (auto simp: block_events_split)
qed

text \<open>Executing a translated block, or a prefix of it, does not fault, and the next block starts in the
  same situation.\<close>

lemma block_safe:
  assumes "tb_ok tb" "vcpu_tb_trans_cb mode tb = Inr r" "br_inv t"
  shows "\<exists>t'. run_block roi mg r q runs t = Inr t' \<and> br_inv t'"
  using trans_phases [OF assms(1,2), of q runs]
proof
  assume "\<forall>e \<in> set (block_events r q runs). no_branch_event e"
  then show ?thesis using br.run_safe assms(3) by (simp add: run_block_events)
next
  assume "\<exists>xs u. cb_tb r = xs @ [(Tb_Update_Fallthrough, u)] \<and> u \<noteq> 0 \<and>
       (\<forall>f u. (f, u) \<in> set xs \<longrightarrow> no_branch_event (Exec f u q)) \<and>
       (\<forall>e \<in> set (body_events r runs). insn_phase_event e)"
  then obtain xs u where tb: "cb_tb r = xs @ [(Tb_Update_Fallthrough, u)]" "u \<noteq> 0"
    and ok: "\<And>f u. (f, u) \<in> set xs \<Longrightarrow> no_branch_event (Exec f u q)"
    and body: "\<forall>e \<in> set (body_events r runs). insn_phase_event e" by blast
  from ok have xs: "\<forall>e \<in> set (map (\<lambda>(f, u). Exec f u q) xs). no_branch_event e" by auto
  from br.run_safe [OF xs assms(3)] obtain t1 where
    t1: "run (thread_step roi mg) (map (\<lambda>(f, u). Exec f u q) xs) t = Inr t1" "br_inv t1" by blast
  then have "in_branch_block (t1\<lparr>td_br_fallthrough := u\<rparr>)"
    using tb by (simp add: br_inv_def in_branch_block_def)
  from branch_block.run_safe [OF body this] obtain t' where
    "run (thread_step roi mg) (body_events r runs) (t1\<lparr>td_br_fallthrough := u\<rparr>) = Inr t'"
    "in_branch_block t'" by blast
  with t1 show ?thesis
    by (simp add: run_block_events block_events_split entry_events_def tb run_append
        tb_exec_update_fallthrough_def upd_def br_inv_def in_branch_block_def)
qed

section \<open>Branches are reported once, with their outcome\<close>

text \<open>Events that leave the recorded branch alone.\<close>

definition quiet :: "thread_event \<Rightarrow> bool" where
  "quiet e \<longleftrightarrow> (case e of
     Exec f _ _ \<Rightarrow> f \<notin> {Insn_Branch, Tb_Branch_Cacheonly, Tb_Branch_Detailed, Tb_Update_Fallthrough}
   | _ \<Rightarrow> True)"

definition branch_is :: "u64 \<Rightarrow> u64 \<Rightarrow> thread_data \<Rightarrow> bool" where
  "branch_is a ft t \<longleftrightarrow> td_br_addr t = a \<and> td_br_fallthrough t = ft"

lemma quiet_step: "quiet e \<Longrightarrow> branch_is a ft t \<Longrightarrow> wlp (thread_step roi mg e) (branch_is a ft) t"
  by (induction e rule: thread_step_cases) (auto simp: handler_defs wp_simps branch_is_def quiet_def)

interpretation quiet: invariant_machine "thread_step roi mg" quiet "branch_is a ft"
  by (rule invariant_machineI) (rule quiet_step)

lemma run_branch_event:
  assumes "run (thread_step roi mg) (pre @ Exec Insn_Branch v q # post) t = Inr t'"
    "\<forall>e \<in> set pre. quiet e" "\<forall>e \<in> set post. quiet e" "td_br_fallthrough t = ft"
  shows "branch_is v ft t'"
proof -
  from assms(1) obtain t1 where
    1: "run (thread_step roi mg) pre t = Inr t1" and
    2: "run (thread_step roi mg) post (t1\<lparr>td_br_addr := v\<rparr>) = Inr t'"
    by (auto simp: run_append bind_res_eq_Inr insn_exec_branch_def upd_def)
  from quiet.run_inv [OF assms(2) _ 1] assms(4) have "branch_is (td_br_addr t) ft t1"
    by (simp add: branch_is_def)
  then have "branch_is v ft (t1\<lparr>td_br_addr := v\<rparr>)" by (simp add: branch_is_def)
  from quiet.run_inv [OF assms(3) this 2] show ?thesis .
qed

text \<open>When all instructions of a block have run, so have the callbacks added on its last one.\<close>

lemma body_events_last:
  assumes "cb_insn r = add_last ys (map g xs)" "cb_mem r = map h xs" "xs \<noteq> []" "length runs = length xs"
  shows "\<exists>q mid post. body_events r runs =
      concat (map insn_events (zip (butlast runs) (zip (map g (butlast xs)) (map h (butlast xs))))) @
      map (\<lambda>(f, u). Exec f u q) (g (last xs)) @ map (\<lambda>(f, u). Exec f u q) ys @ post \<and>
      (\<forall>e \<in> set post. \<exists>f u q va. e = Mem f u q va)"
proof -
  obtain xs' x where x: "xs = xs' @ [x]" using assms(3) by (cases xs rule: rev_cases) auto
  then obtain runs' q accs where r: "runs = runs' @ [(q, accs)]" "length runs' = length xs'"
    using assms(4) by (cases runs rule: rev_cases) auto
  show ?thesis
    by (rule exI [of _ q], rule exI, rule exI [of _ "concat (map (\<lambda>(qa, va). map (\<lambda>(f, u). Mem f u qa va) (h x)) accs)"])
       (auto simp: body_events_def assms(1,2) x r add_last_def insn_events_def)
qed

lemma quiet_prefix:
  assumes "e \<in> set (concat (map insn_events (zip runs (zip (map g xs) (map h xs)))))"
    "\<And>x f u. (f, u) \<in> set (g x) \<Longrightarrow> f \<notin> {Insn_Branch, Tb_Branch_Cacheonly, Tb_Branch_Detailed, Tb_Update_Fallthrough}"
  shows "quiet e"
proof -
  from assms(1) obtain q accs execs mems where
    "((q, accs), execs, mems) \<in> set (zip runs (zip (map g xs) (map h xs)))"
    and e: "e \<in> set (insn_events ((q, accs), execs, mems))"
    by auto
  then have "execs \<in> set (map g xs)" by (meson set_zip_leftD set_zip_rightD)
  with e assms(2) show ?thesis by (fastforce simp: insn_events_def quiet_def)
qed

lemma branch_recorded:
  assumes tb: "tb_ok tb" "tb_is_branch tb" "mode \<in> {ModeMemory, ModeDetailed}"
    "vcpu_tb_trans_cb mode tb = Inr r"
    and runs: "length runs = length (tb_insns tb)" "run_block roi mg r q runs t = Inr t'"
  shows "branch_is (insn_vaddr (last (tb_insns tb))) (tb_next_pc tb) t'"
proof -
  let ?last = "last (tb_insns tb)"
  define g where "g = (if mode = ModeMemory then memory_execs else detailed_execs)"
  define h where "h = (if mode = ModeMemory then memory_mems else (\<lambda>_. [(Mem_Send_Detailed, 0)]))"
  define pre :: "(exec_fn \<times> u64) list" where "pre = (if mode = ModeDetailed \<and> tb_is_pause tb then [(Insn_Pause, 0)] else [])"
  define post where "post = (if mode = ModeMemory then [(Insn_Branch_Ram_Addr, insn_ram_addr ?last)] else [])"
  obtain xs where r: "cb_tb r = xs @ [(Tb_Update_Fallthrough, tb_next_pc tb)]"
      "cb_insn r = add_last (pre @ (Insn_Branch, insn_vaddr ?last) # post) (map g (tb_insns tb))"
      "cb_mem r = map h (tb_insns tb)"
    using tb by (auto simp: tb_ok_def trans_memory_mode trans_detailed_mode pre_def post_def g_def h_def
        split: if_splits)
  have ne: "tb_insns tb \<noteq> []" using tb(1) by (simp add: tb_ok_def)
  have g: "\<And>x f u. (f, u) \<in> set (g x) \<Longrightarrow>
      f \<notin> {Insn_Branch, Tb_Branch_Cacheonly, Tb_Branch_Detailed, Tb_Update_Fallthrough}"
    by (auto simp: g_def memory_execs_def detailed_execs_def split: if_splits)
  from body_events_last [OF r(2,3) ne runs(1)] obtain q' mems where
    b: "body_events r runs =
      (concat (map insn_events (zip (butlast runs) (zip (map g (butlast (tb_insns tb))) (map h (butlast (tb_insns tb)))))) @
      map (\<lambda>(f, u). Exec f u q') (g ?last) @ map (\<lambda>(f, u). Exec f u q') pre) @
      Exec Insn_Branch (insn_vaddr ?last) q' # map (\<lambda>(f, u). Exec f u q') post @ mems" (is "_ = ?A @ _ # ?B")
    and m: "\<forall>e \<in> set mems. \<exists>f u q va. e = Mem f u q va"
    by auto
  have "\<forall>e \<in> set (map (\<lambda>(f, u). Exec f u q') (g ?last) @ map (\<lambda>(f, u). Exec f u q') pre). quiet e"
    using g by (auto simp: pre_def quiet_def split: if_splits)
  moreover have "\<forall>e \<in> set (concat (map insn_events (zip (butlast runs)
      (zip (map g (butlast (tb_insns tb))) (map h (butlast (tb_insns tb))))))). quiet e"
    by (intro ballI quiet_prefix [OF _ g])
  ultimately have A: "\<forall>e \<in> set ?A. quiet e" by (metis Un_iff set_append)
  have B: "\<forall>e \<in> set ?B. quiet e" using m by (auto simp: post_def quiet_def split: if_splits)
  from runs(2) obtain x where
    "run (thread_step roi mg) (body_events r runs) (x\<lparr>td_br_fallthrough := tb_next_pc tb\<rparr>) = Inr t'"
    by (auto simp: run_block_events block_events_split entry_events_def r run_append bind_res_eq_Inr
        tb_exec_update_fallthrough_def upd_def)
  then show ?thesis using run_branch_event [OF _ A B] b by simp
qed

text \<open>C5: A branch is reported once, with its outcome, in the cache-only mode: when a branching block has
  run to its end, the entry of the next block reports the branch, as not taken exactly if
  the next block starts at the fall-through address, together with the instructions executed
  since the last report; then nothing is pending and no branch is recorded. The physical
  address given for the target is the one of the last instruction of the new block.\<close>

theorem branch_reported_cacheonly:
  assumes A: "tb_ok tb" "tb_is_branch tb" "vcpu_tb_trans_cb ModeMemory tb = Inr r"
      "length runs = length (tb_insns tb)" "run_block roi mg r q runs t = Inr t1"
      "insn_vaddr (last (tb_insns tb)) \<noteq> 0" "td_output t1 \<noteq> None"
    and B: "tb_ok tb2" "vcpu_tb_trans_cb ModeMemory tb2 = Inr r2"
  shows "\<exists>t2 sync. run (thread_step roi mg) (entry_events r2 q2) t1 = Inr t2 \<and>
    calls_of t2 = calls_of t1 @
      [Translate (tb_vaddr tb2) (insn_ram_addr (last (tb_insns tb2))),
       CacheOnly (td_icount_cacheonly_pending t1)
         (if tb_vaddr tb2 = tb_next_pc tb then CacheOnlyBranchNotTaken else CacheOnlyBranchTaken)
         (insn_vaddr (last (tb_insns tb))) (tb_vaddr tb2)] @ sync \<and>
    sync \<in> {[], [Sync]} \<and> td_icount_cacheonly_pending t2 = 0 \<and> td_br_addr t2 = 0"
proof -
  have t1: "td_br_addr t1 = insn_vaddr (last (tb_insns tb))" "td_br_fallthrough t1 = tb_next_pc tb"
    using branch_recorded [OF A(1,2) _ A(3-5)] by (auto simp: branch_is_def)
  have "wp (run (thread_step roi mg) (entry_events r2 q2)) (\<lambda>t2. \<exists>sync.
     calls_of t2 = calls_of t1 @
      [Translate (tb_vaddr tb2) (insn_ram_addr (last (tb_insns tb2))),
       CacheOnly (td_icount_cacheonly_pending t1)
         (if tb_vaddr tb2 = tb_next_pc tb then CacheOnlyBranchNotTaken else CacheOnlyBranchTaken)
         (insn_vaddr (last (tb_insns tb))) (tb_vaddr tb2)] @ sync \<and>
     sync \<in> {[], [Sync]} \<and> td_icount_cacheonly_pending t2 = 0 \<and> td_br_addr t2 = 0) t1"
    using A B t1
    by (auto simp: tb_ok_def trans_memory_mode entry_events_def run_def handler_defs wp_simps calls_of_def)
  then show ?thesis by (auto simp: wp_iff)
qed

text \<open>The calls at the entry of a block of the detailed mode: the processor leaving or entering the
  region of interest, and the block's address translations and code pages.\<close>

definition roi_calls :: "bool \<Rightarrow> bool \<Rightarrow> sift_call list" where
  "roi_calls roi idle =
     (if roi then (if idle then [VCPUResume] else [])
      else if idle then [] else [InstructionEnd, VCPUIdle])"

definition fetch_calls :: "bool \<Rightarrow> qemu_view \<Rightarrow> qemu_tb \<Rightarrow> sift_call list" where
  "fetch_calls roi q tb =
     (if roi then
        [Translate (tb_vaddr tb) (tb_ram_addr tb), SendICache (tb_vaddr tb) (tb_haddr tb) (icache_pgd q)] @
        (if tb_vaddr2 tb \<noteq> - 1
         then [Translate (tb_vaddr2 tb) (tb_ram_addr2 tb), SendICache (tb_vaddr2 tb) (tb_haddr2 tb) (icache_pgd q)]
         else [])
      else [])"

text \<open>C6: The detailed mode reports each branch once as well: the entry of the block after a
  branching block makes exactly one \<open>InstructionBranch\<close> call, which says taken exactly if the
  block does not start at the fall-through address, after the processor has been resumed or
  put to sleep so that it is idle exactly outside the region of interest; the block's own
  translations and code pages follow, only inside the region.\<close>

theorem branch_reported_detailed:
  assumes A: "tb_ok tb" "tb_is_branch tb" "vcpu_tb_trans_cb ModeDetailed tb = Inr r"
      "length runs = length (tb_insns tb)" "run_block roi mg r q runs t = Inr t1"
      "insn_vaddr (last (tb_insns tb)) \<noteq> 0" "td_output t1 \<noteq> None"
    and B: "tb_ok tb2" "vcpu_tb_trans_cb ModeDetailed tb2 = Inr r2"
  shows "\<exists>t2. run (thread_step roi mg) (entry_events r2 q2) t1 = Inr t2 \<and>
    calls_of t2 = calls_of t1 @ roi_calls (in_roi roi q2) (td_idle t1) @
      [InstructionBranch (tb_vaddr tb2 \<noteq> tb_next_pc tb)] @ fetch_calls (in_roi roi q2) q2 tb2 \<and>
    td_idle t2 = (\<not> in_roi roi q2) \<and> td_br_addr t2 = 0"
proof -
  obtain w where "td_output t1 = Some w" using A(7) by blast
  moreover have "td_br_addr t1 = insn_vaddr (last (tb_insns tb))" "td_br_fallthrough t1 = tb_next_pc tb"
    using branch_recorded [OF A(1,2) _ A(3-5)] by (auto simp: branch_is_def)
  moreover have "tb_insns tb2 \<noteq> []" "tb_vaddr2 tb2 \<noteq> - 1 \<longrightarrow> tb_haddr2 tb2 \<noteq> 0"
    "tb_next_pc tb \<noteq> 0"
    using A B by (auto simp: tb_ok_def)
  ultimately have "wp (run (thread_step roi mg) (entry_events r2 q2)) (\<lambda>t2.
    calls_of t2 = calls_of t1 @ roi_calls (in_roi roi q2) (td_idle t1) @
      [InstructionBranch (tb_vaddr tb2 \<noteq> tb_next_pc tb)] @ fetch_calls (in_roi roi q2) q2 tb2 \<and>
    td_idle t2 = (\<not> in_roi roi q2) \<and> td_br_addr t2 = 0) t1"
    using A(6) B(2)
    by (cases "in_roi roi q2"; cases "td_idle t1"; cases "tb_vaddr2 tb2 = - 1"; cases "tb_is_branch tb2")
       (auto simp: trans_detailed_mode entry_events_def run_def handler_defs wp_simps calls_of_def
         roi_calls_def fetch_calls_def)
  then show ?thesis by (auto simp: wp_iff)
qed

section \<open>Concrete blocks\<close>

definition demo_insn :: "u64 \<Rightarrow> qemu_insn" where
  "demo_insn v = \<lparr>insn_vaddr = v, insn_ram_addr = v + 0x100000, insn_next = v + 4, insn_is_cmpxchg = False\<rparr>"

definition demo_tb :: "u64 \<Rightarrow> qemu_tb" where
  "demo_tb v = \<lparr>tb_insns = [demo_insn v], tb_vaddr = v, tb_ram_addr = v + 0x100000, tb_haddr = v + 0x200000,
     tb_vaddr2 = - 1, tb_haddr2 = 0, tb_ram_addr2 = 0, tb_next_pc = v + 4, tb_is_branch = True,
     tb_is_pause = False\<rparr>"

definition demo_q :: qemu_view where
  "demo_q = \<lparr>q_in_kernel = False, q_page_directory = 0x5000, q_is_store = True, q_paddr = 0x100, q_is_io = False\<rparr>"

definition demo_writer :: sift_writer where
  "demo_writer = \<lparr>w_filename = ''vcpu0.sift'', w_response = ''response.vcpu0.sift'', w_id = 0,
     w_is_open = True, w_calls = []\<rparr>"

definition demo_thread :: thread_data where
  "demo_thread = thread_data_zero\<lparr>td_output := Some demo_writer, td_idle := True\<rparr>"

definition demo_r :: "sift_mode \<Rightarrow> u64 \<Rightarrow> tb_callbacks" where
  "demo_r mode v = (case vcpu_tb_trans_cb mode (demo_tb v) of Inr r \<Rightarrow> r)"

lemma demo_tb_ok: "v + 4 \<noteq> 0 \<Longrightarrow> tb_ok (demo_tb v)"
  by (simp add: tb_ok_def demo_tb_def)

lemma demo_trans: "v + 4 \<noteq> 0 \<Longrightarrow> vcpu_tb_trans_cb mode (demo_tb v) = Inr (demo_r mode v)"
  using trans_ok [OF demo_tb_ok, of v mode] by (auto simp: demo_r_def)

lemmas demo_defs = demo_insn_def demo_tb_def demo_q_def demo_writer_def demo_thread_def demo_r_def
  thread_data_zero_def

lemmas demo_run = demo_defs run_simps trans_memory_mode trans_detailed_mode add_last_def
  memory_execs_def memory_mems_def detailed_execs_def run_block_def run_insn_def emit_def over_ff_def
  FlowControlFF_def FlowControl_def handler_defs

lemma demo_memory_run:
  "\<exists>t1. run_block 0 0 (demo_r ModeMemory 0x1000) demo_q [(demo_q, [])] demo_thread = Inr t1 \<and>
     td_output t1 \<noteq> None \<and> td_icount_cacheonly_pending t1 = 1"
  by (simp add: demo_run)

theorem branch_reported_cacheonly_witness:
  "\<exists>t1 t2 sync. run_block 0 0 (demo_r ModeMemory 0x1000) demo_q [(demo_q, [])] demo_thread = Inr t1 \<and>
     run (thread_step 0 0) (entry_events (demo_r ModeMemory 0x2000) demo_q) t1 = Inr t2 \<and>
     calls_of t2 = calls_of t1 @
       [Translate 0x2000 0x102000, CacheOnly 1 CacheOnlyBranchTaken 0x1000 0x2000] @ sync"
proof -
  obtain t1 where t1: "run_block 0 0 (demo_r ModeMemory 0x1000) demo_q [(demo_q, [])] demo_thread = Inr t1"
    "td_output t1 \<noteq> None" "td_icount_cacheonly_pending t1 = 1" using demo_memory_run by blast
  from branch_reported_cacheonly [OF demo_tb_ok _ demo_trans _ t1(1) _ t1(2) demo_tb_ok demo_trans, of "0x2000" demo_q]
  show ?thesis using t1 by (auto simp: demo_tb_def demo_insn_def)
qed

lemma demo_detailed_run:
  "\<exists>t1. run_block 0 0 (demo_r ModeDetailed 0x1000) demo_q [(demo_q, [])] demo_thread = Inr t1 \<and>
     td_output t1 \<noteq> None \<and> td_idle t1"
  by (simp add: demo_run in_roi_def)

theorem branch_reported_detailed_witness:
  "\<exists>t1 t2. run_block 0 0 (demo_r ModeDetailed 0x1000) demo_q [(demo_q, [])] demo_thread = Inr t1 \<and>
     run (thread_step 0 0) (entry_events (demo_r ModeDetailed 0x1004) demo_q) t1 = Inr t2 \<and>
     calls_of t2 = calls_of t1 @ [VCPUResume, InstructionBranch False, Translate 0x1004 0x101004,
       SendICache 0x1004 0x201004 0x5000]"
proof -
  obtain t1 where t1: "run_block 0 0 (demo_r ModeDetailed 0x1000) demo_q [(demo_q, [])] demo_thread = Inr t1"
    "td_output t1 \<noteq> None" "td_idle t1" using demo_detailed_run by blast
  from branch_reported_detailed [OF demo_tb_ok _ demo_trans _ t1(1) _ t1(2) demo_tb_ok demo_trans, of "0x1004" demo_q]
  show ?thesis using t1
    by (auto simp: demo_tb_def demo_insn_def demo_q_def in_roi_def roi_calls_def fetch_calls_def icache_pgd_def)
qed

end
