(* ===== verification/Trace_Counts.thy ===== *)
theory Trace_Counts
  imports Trace_Blocks
begin

text \<open>
  The trace as its reader sees it: over whole executions, the instruction counts written to
  the trace add up to the instructions executed, the idle and resume calls alternate, a
  synchronisation is requested at least every 1000 detailed instructions, and the counters of
  the detailed mode are exact. What is counted is defined on the executions (which instructions
  started, and whether the trace then calls the processor idle), not on the code's counters.
\<close>

section \<open>Executions\<close>

text \<open>A block execution: the block, the view at its entry, and its instructions that ran.\<close>

type_synonym tb_run = "qemu_tb \<times> qemu_view \<times> insn_run list"

definition tb_step :: "u64 \<Rightarrow> u64 \<Rightarrow> sift_mode \<times> tb_run \<Rightarrow> thread_data stmt" where
  "tb_step roi mg = (\<lambda>(mode, tb, q, runs) t.
     bind_res (vcpu_tb_trans_cb mode tb) (\<lambda>r. run_block roi mg r q runs t))"

definition tb_run_ok :: "sift_mode \<times> tb_run \<Rightarrow> bool" where
  "tb_run_ok = (\<lambda>(mode, tb, q, runs). tb_ok tb \<and> length runs \<le> length (tb_insns tb))"

lemma tb_step_safe: "tb_run_ok e \<Longrightarrow> br_inv t \<Longrightarrow> wp (tb_step roi mg e) br_inv t"
proof -
  obtain mode tb q runs where e: "e = (mode, tb, q, runs)" by (cases e)
  assume "tb_run_ok e" "br_inv t"
  then have "tb_ok tb" by (simp add: tb_run_ok_def e)
  with trans_ok obtain r where "vcpu_tb_trans_cb mode tb = Inr r" by blast
  with block_safe [OF \<open>tb_ok tb\<close> this \<open>br_inv t\<close>] show ?thesis by (simp add: tb_step_def e wp_iff)
qed

interpretation blocks: safe_machine "tb_step roi mg" tb_run_ok br_inv
  by (rule safe_machineI) (rule tb_step_safe)

text \<open>C9: Executing translated blocks never faults, whatever blocks are executed, entirely or up to
  some instruction, and whatever mode each was translated for: the writer is never null, and
  no assertion fails, in particular a recorded branch always has its fall-through address.\<close>

theorem trace_execution_safe:
  assumes "\<forall>e \<in> set es. tb_run_ok e" "td_output t \<noteq> None" "td_br_addr t = 0"
  shows "\<exists>t'. run (tb_step roi mg) es t = Inr t' \<and> td_output t' \<noteq> None \<and>
    (td_br_addr t' \<noteq> 0 \<longrightarrow> td_br_fallthrough t' \<noteq> 0)"
  using blocks.run_safe [OF assms(1), of t] assms(2,3) by (simp add: br_inv_def)

theorem trace_execution_safe_witness:
  "\<exists>t'. run (tb_step 0x5000 0x7000) [(ModeMemory, demo_tb 0x1000, demo_q, [(demo_q, [(demo_q, 0x7000)])]),
      (ModeDetailed, demo_tb 0x2000, demo_q, [(demo_q, [(demo_q, 0x7000)])])] demo_thread = Inr t' \<and>
    td_output t' \<noteq> None"
proof -
  have "\<forall>e \<in> set [(ModeMemory, demo_tb 0x1000, demo_q, [(demo_q, [(demo_q, 0x7000)])]),
      (ModeDetailed, demo_tb 0x2000, demo_q, [(demo_q, [(demo_q, 0x7000)])])]. tb_run_ok e"
    by (simp add: tb_run_ok_def tb_ok_def demo_defs)
  from trace_execution_safe [OF this, of demo_thread "0x5000" "0x7000"] show ?thesis
    by (auto simp: demo_defs)
qed

section \<open>Instruction counts\<close>

definition only :: "sift_mode \<Rightarrow> sift_mode \<times> tb_run \<Rightarrow> bool" where
  "only mode e \<longleftrightarrow> tb_run_ok e \<and> fst e = mode"

text \<open>How many instructions of a block execution ran, and how many the block has.\<close>

definition insns_run :: "sift_mode \<times> tb_run \<Rightarrow> u64" where
  "insns_run = (\<lambda>(mode, tb, q, runs). of_nat (length runs))"

definition insns_of :: "sift_mode \<times> tb_run \<Rightarrow> u64" where
  "insns_of = (\<lambda>(mode, tb, q, runs). of_nat (length (tb_insns tb)))"

text \<open>The callbacks of one kind among the events of a block.\<close>

definition exec_at :: "(qemu_view \<Rightarrow> bool) \<Rightarrow> exec_fn \<Rightarrow> thread_event \<Rightarrow> bool" where
  "exec_at P f e \<longleftrightarrow> (case e of Exec g _ q \<Rightarrow> g = f \<and> P q | _ \<Rightarrow> False)"

abbreviation is_exec :: "exec_fn \<Rightarrow> thread_event \<Rightarrow> bool" where
  "is_exec \<equiv> exec_at (\<lambda>_. True)"

lemma exec_at_Exec [simp]: "exec_at P f (Exec g u q) \<longleftrightarrow> g = f \<and> P q"
  by (simp add: exec_at_def)

lemma filter_exec_insn:
  "length (filter (exec_at P f) (insn_events ((q, accs), execs, mems))) =
     (if P q then length (filter (\<lambda>(g, u). g = f) execs) else 0)"
proof -
  have m: "filter (exec_at P f) (concat (map (\<lambda>(qa, va). map (\<lambda>(g, u). Mem g u qa va) mems) accs)) = []"
    by (auto simp: filter_empty_conv exec_at_def)
  have "length (filter (exec_at P f) (map (\<lambda>(g, u). Exec g u q) execs)) =
      (if P q then length (filter (\<lambda>(g, u). g = f) execs) else 0)"
  proof (cases "P q")
    case True
    then show ?thesis by (induction execs) auto
  next
    case False
    then show ?thesis by (auto simp: filter_empty_conv)
  qed
  with m show ?thesis by (simp add: insn_events_def)
qed

lemma filter_exec_body:
  assumes "\<And>xs. xs \<in> set (cb_insn r) \<Longrightarrow> length (filter (\<lambda>(g, u). g = f) xs) = k"
    "length runs \<le> length (cb_insn r)" "length (cb_mem r) = length (cb_insn r)"
  shows "length (filter (exec_at P f) (body_events r runs)) = k * length (filter (\<lambda>x. P (fst x)) runs)"
proof -
  have "(\<And>xs. xs \<in> set I \<Longrightarrow> length (filter (\<lambda>(g, u). g = f) xs) = k) \<Longrightarrow>
     length runs \<le> length I \<Longrightarrow> length M = length I \<Longrightarrow>
     length (filter (exec_at P f) (concat (map insn_events (zip runs (zip I M))))) =
       k * length (filter (\<lambda>x. P (fst x)) runs)" for I M
  proof (induction runs arbitrary: I M)
    case (Cons x runs)
    obtain q accs i I' m M' where "x = (q, accs)" "I = i # I'" "M = m # M'"
      using Cons.prems by (cases x; cases I; cases M) auto
    with Cons show ?case by (simp add: filter_exec_insn)
  qed simp
  with assms show ?thesis by (simp add: body_events_def)
qed

lemma sum_insn_weight:
  "sum_list (map insn_weight es) = of_nat (length (filter (is_exec Insn_Count_Insn) es))"
proof (induction es)
  case (Cons e es)
  then show ?case by (induction e rule: thread_step_cases) (simp_all add: insn_weight_def exec_at_def)
qed simp

definition not_icount :: "thread_event \<Rightarrow> bool" where
  "not_icount e \<longleftrightarrow> (case e of Exec f _ _ \<Rightarrow> f \<noteq> Tb_Count_Insns | _ \<Rightarrow> True)"

definition started_insns :: "sift_mode \<times> tb_run \<Rightarrow> nat" where
  "started_insns = (\<lambda>(mode, tb, q, runs). length runs)"

text \<open>The callbacks of a block in the cache-only mode.\<close>

lemma memory_block_events:
  assumes "only ModeMemory e" "tb_step roi mg e t = Inr t'"
  obtains es where "run (thread_step roi mg) es t = Inr t'" "\<forall>e \<in> set es. not_icount e"
    "length (filter (is_exec Insn_Count_Insn) es) = started_insns e"
proof -
  obtain tb q runs where e: "e = (ModeMemory, tb, q, runs)"
    using assms(1) by (cases e) (auto simp: only_def)
  then have ok: "tb_insns tb \<noteq> []" "length runs \<le> length (tb_insns tb)"
    using assms(1) by (auto simp: only_def tb_run_ok_def tb_ok_def)
  from assms(2) obtain r where r: "vcpu_tb_trans_cb ModeMemory tb = Inr r"
    and run: "run (thread_step roi mg) (block_events r q runs) t = Inr t'"
    by (auto simp: tb_step_def e bind_res_eq_Inr run_block_events)
  have "\<forall>e \<in> set (entry_events r q). \<not> is_exec Insn_Count_Insn e \<and> not_icount e"
    using r ok by (auto simp: trans_memory_mode entry_events_def exec_at_def not_icount_def)
  moreover have "not_icount e" if "e \<in> set (body_events r runs)" for e
    using that r ok
    by (cases rule: body_event_cases)
       (auto simp: trans_memory_mode memory_execs_def not_icount_def dest!: set_add_last split: if_splits)
  moreover have "length (filter (is_exec Insn_Count_Insn) (body_events r runs)) = 1 * length (filter (\<lambda>x. True) runs)"
    using r ok
    by (intro filter_exec_body)
       (auto simp: trans_memory_mode memory_execs_def dest!: set_add_last split: if_splits)
  ultimately show thesis
    by (intro that [OF run]) (auto simp: block_events_split e started_insns_def filter_empty_conv)
qed

text \<open>A block in the cache-only mode counts the instructions that ran, a block in the fast-forward mode
  all its instructions at once.\<close>

lemma memory_block_counts:
  assumes "only ModeMemory e" "tb_step roi mg e t = Inr t'"
  shows "pending_total t' = pending_total t + insns_run e"
proof -
  obtain es where "run (thread_step roi mg) es t = Inr t'"
    "length (filter (is_exec Insn_Count_Insn) es) = started_insns e"
    using memory_block_events [OF assms] by blast
  moreover have "of_nat (started_insns e) = insns_run e" by (simp add: started_insns_def insns_run_def split_beta)
  ultimately show ?thesis using pending.run_adds by (simp add: sum_insn_weight)
qed

interpretation memory_blocks:
  measured_machine "tb_step roi mg" "only ModeMemory" insns_run pending_total
  by unfold_locales (rule memory_block_counts)

lemma icount_block_step:
  assumes "only ModeIcount e"
  shows "tb_step roi mg e t = tb_exec_count_insns (insns_of e) t"
proof -
  obtain tb q runs where e: "e = (ModeIcount, tb, q, runs)"
    using assms by (cases e) (auto simp: only_def)
  have "e \<notin> set (body_events \<lparr>cb_tb = xs, cb_insn = replicate n [], cb_mem = replicate n []\<rparr> runs)"
    for xs n e
    by (auto elim: body_event_cases)
  then have "body_events \<lparr>cb_tb = xs, cb_insn = replicate n [], cb_mem = replicate n []\<rparr> runs = []" for xs n
    by (metis last_in_set)
  then show ?thesis
    by (simp add: tb_step_def e trans_icount run_block_events block_events_split entry_events_def
        insns_of_def run_append bind_res_def block.simps split: sum.split)
qed

lemma block_cacheonly:
  assumes "cacheonly_inv t" "tb_step roi mg e t = Inr t'"
  shows "cacheonly_inv t'"
proof -
  from assms(2) obtain es where "run (thread_step roi mg) es t = Inr t'"
    by (cases e) (auto simp: tb_step_def bind_res_eq_Inr run_block_events)
  from cacheonly.run_inv [OF _ assms(1) this] show ?thesis by simp
qed

interpretation cacheonly_blocks: invariant_machine "tb_step roi mg" "\<lambda>_. True" cacheonly_inv
  by unfold_locales (rule block_cacheonly)

text \<open>A processor's data at the start of a recording.\<close>

definition fresh_thread :: "thread_data \<Rightarrow> bool" where
  "fresh_thread t \<longleftrightarrow> td_output t \<noteq> None \<and> calls_of t = [] \<and> td_br_addr t = 0 \<and> td_icount t = 0 \<and>
     td_icount_cacheonly t = 0 \<and> td_icount_cacheonly_pending t = 0 \<and> td_icount_detailed t = 0 \<and>
     td_icount_reported t = 0 \<and> td_flowcontrol_target t = 0 \<and> td_icount_user t = 0 \<and>
     td_icount_other t = 0 \<and> td_idle t"

text \<open>C3: No instruction is lost or counted twice in the cache-only mode: after any execution of blocks
  translated for it, the instruction counts of the \<open>CacheOnly\<close> calls and the count still
  pending add up (modulo \<open>2^64\<close>) to the number of instructions that ran, and
  \<open>icount_cacheonly\<close> is what was reported.\<close>

theorem trace_cacheonly_conserves:
  assumes "fresh_thread t" "\<forall>e \<in> set es. only ModeMemory e"
  shows "\<exists>t'. run (tb_step roi mg) es t = Inr t' \<and>
    cacheonly_total (calls_of t') + td_icount_cacheonly_pending t' = sum_list (map insns_run es) \<and>
    td_icount_cacheonly t' = cacheonly_total (calls_of t')"
proof -
  have "\<forall>e \<in> set es. tb_run_ok e" "br_inv t" "cacheonly_inv t" "pending_total t = 0"
    using assms by (auto simp: only_def fresh_thread_def br_inv_def cacheonly_inv_def pending_total_def)
  moreover from this blocks.run_safe obtain t' where t': "run (tb_step roi mg) es t = Inr t'" by blast
  ultimately show ?thesis
    using memory_blocks.run_adds [OF assms(2) t'] cacheonly_blocks.run_inv [OF _ _ t']
    by (simp add: pending_total_def cacheonly_inv_def)
qed

definition icount_inv :: "thread_data \<Rightarrow> bool" where
  "icount_inv t \<longleftrightarrow> td_output t \<noteq> None \<and> td_icount_reported t \<le> ucast FlowControlFF \<and>
     reported_total t = td_icount t"

lemma icount_block_inv:
  "only ModeIcount e \<Longrightarrow> icount_inv t \<Longrightarrow> wp (tb_step roi mg e)
     (\<lambda>t'. icount_inv t' \<and> td_icount t' = td_icount t + insns_of e) t"
  by (auto simp: wp_def icount_block_step)
     (auto simp: tb_exec_count_insns_def run_simps emit_def over_ff_def icount_inv_def reported_total_def
       calls_of_def split: option.splits)

interpretation icount_blocks: safe_machine "tb_step roi mg" "only ModeIcount" icount_inv
  by (rule safe_machineI) (auto intro: wp_mono [OF icount_block_inv])

lemma icount_block_adds:
  "only ModeIcount e \<Longrightarrow> tb_step roi mg e t = Inr t' \<Longrightarrow> td_icount t' = td_icount t + insns_of e"
  by (auto simp: icount_block_step tb_exec_count_insns_def run_simps emit_def over_ff_def
      split: option.splits if_splits)

interpretation icount_totals: measured_machine "tb_step roi mg" "only ModeIcount" insns_of td_icount
  by unfold_locales (rule icount_block_adds)

text \<open>C4: The fast-forward mode reports every instruction of every block it starts, exactly once: the
  arguments of the \<open>InstructionCount\<close> calls and the count not yet reported add up (modulo
  \<open>2^64\<close>) to the sizes of the executed blocks, and at most 100000 instructions are ever left
  unreported.\<close>

theorem trace_icount_conserves:
  assumes "fresh_thread t" "\<forall>e \<in> set es. only ModeIcount e"
  shows "\<exists>t'. run (tb_step roi mg) es t = Inr t' \<and>
    icount_total (calls_of t') + td_icount_reported t' = sum_list (map insns_of es) \<and>
    td_icount t' = sum_list (map insns_of es) \<and> unat (td_icount_reported t') \<le> 100000"
proof -
  have "icount_inv t" using assms(1) by (auto simp: fresh_thread_def icount_inv_def reported_total_def)
  with icount_blocks.run_safe [OF assms(2)] obtain t' where
    t': "run (tb_step roi mg) es t = Inr t'" "icount_inv t'" by blast
  moreover have "td_icount t' = sum_list (map insns_of es)"
    using icount_totals.run_adds [OF assms(2) t'(1)] assms(1) by (simp add: fresh_thread_def)
  moreover have "unat (td_icount_reported t') \<le> 100000"
    using t'(2) by (simp add: icount_inv_def FlowControlFF_def word_le_nat_alt)
  ultimately show ?thesis by (simp add: icount_inv_def reported_total_def)
qed

lemma demo_fresh: "fresh_thread demo_thread"
  by (simp add: fresh_thread_def demo_defs calls_of_def)

definition demo_run_of :: "sift_mode \<Rightarrow> u64 \<Rightarrow> sift_mode \<times> tb_run" where
  "demo_run_of mode v = (mode, demo_tb v, demo_q, [(demo_q, [])])"

lemma demo_only: "v + 4 \<noteq> 0 \<Longrightarrow> only mode (demo_run_of mode v)"
  by (simp add: only_def tb_run_ok_def demo_tb_ok demo_run_of_def) (simp add: demo_tb_def)

theorem trace_cacheonly_conserves_witness:
  "\<exists>t'. run (tb_step 0 0) [demo_run_of ModeMemory 0x1000, demo_run_of ModeMemory 0x2000] demo_thread = Inr t' \<and>
    cacheonly_total (calls_of t') + td_icount_cacheonly_pending t' = 2"
  using trace_cacheonly_conserves [OF demo_fresh,
      of "[demo_run_of ModeMemory 0x1000, demo_run_of ModeMemory 0x2000]" 0 0]
  by (auto simp: demo_only) (auto simp: insns_run_def demo_run_of_def)

theorem trace_icount_conserves_witness:
  "\<exists>t'. run (tb_step 0 0) [demo_run_of ModeIcount 0x1000, demo_run_of ModeIcount 0x2000] demo_thread = Inr t' \<and>
    icount_total (calls_of t') + td_icount_reported t' = 2"
  using trace_icount_conserves [OF demo_fresh,
      of "[demo_run_of ModeIcount 0x1000, demo_run_of ModeIcount 0x2000]" 0 0]
  by (auto simp: demo_only) (auto simp: insns_of_def demo_run_of_def demo_tb_def)

section \<open>Counts across a mode switch\<close>

text \<open>The parts of a processor's data that say which instructions were reported, and how.\<close>

definition count_view :: "thread_data \<Rightarrow> u64 \<times> u64 \<times> u64 \<times> u64" where
  "count_view t = (cacheonly_total (calls_of t), td_icount_cacheonly_pending t,
     icount_total (calls_of t), td_icount_reported t)"

text \<open>In the cache-only mode \<open>icount_reported\<close> grows with the \<open>CacheOnly\<close> calls, until more than
  100000 instructions were reported.\<close>

definition cacheonly_reported :: "nat \<Rightarrow> thread_data \<Rightarrow> bool" where
  "cacheonly_reported n t \<longleftrightarrow> icount_total (calls_of t) = 0 \<and>
     td_icount_reported t = cacheonly_total (calls_of t) \<and>
     unat (cacheonly_total (calls_of t)) + unat (td_icount_cacheonly_pending t) = n"

definition counts_insn :: "thread_event \<Rightarrow> nat" where
  "counts_insn e = (if is_exec Insn_Count_Insn e then 1 else 0)"

lemma sum_counts_insn: "sum_list (map counts_insn es) = length (filter (is_exec Insn_Count_Insn) es)"
  by (induction es) (simp_all add: counts_insn_def)

lemma small_sum:
  assumes "unat x + unat y \<le> 100000"
  shows "unat (x + y :: u64) = unat x + unat y" "\<not> 100000 < x + (y :: u64)"
proof -
  show "unat (x + y) = unat x + unat y" using assms by (simp add: unat_word_ariths)
  with assms show "\<not> 100000 < x + y" by (simp add: word_less_nat_alt)
qed

lemma small_sums:
  assumes "unat (cacheonly_total cs) + unat p = n" "n \<le> 100000"
  shows "unat (p + cacheonly_total cs) = n" "unat (cacheonly_total cs + p) = n"
    "\<not> 100000 < cacheonly_total cs + p" "\<not> 100000 < p + cacheonly_total cs"
  using assms small_sum [of "cacheonly_total cs" p] by (simp_all add: add.commute)

lemma small_suc: "unat (c :: u64) + unat (p :: u64) = n \<Longrightarrow> n < 100000 \<Longrightarrow> unat (p + 1) = Suc (unat p)"
  by (simp add: unat_word_ariths)

text \<open>The callbacks that move a count.\<close>

definition counts_event :: "thread_event \<Rightarrow> bool" where
  "counts_event e \<longleftrightarrow> (case e of
     Exec f _ _ \<Rightarrow> f \<in> {Insn_Count_Insn, Tb_Branch_Cacheonly, Tb_Count_Insns}
   | Mem f _ _ _ \<Rightarrow> f = Mem_Send_Cacheonly | _ \<Rightarrow> False)"

lemma count_view_step:
  "\<not> counts_event e \<Longrightarrow> wlp (thread_step roi mg e) (\<lambda>t'. count_view t' = count_view t) t"
  by (induction e rule: thread_step_cases)
     (auto simp: handler_defs wp_simps count_view_def counts_event_def calls_of_def)

lemma cacheonly_reported_view:
  "count_view t' = count_view t \<Longrightarrow> cacheonly_reported n t' = cacheonly_reported n t"
  by (auto simp: count_view_def cacheonly_reported_def)

lemma cacheonly_reported_totals:
  assumes "cacheonly_reported n t"
  shows "cacheonly_total (calls_of t) + td_icount_cacheonly_pending t = of_nat n"
    "reported_total t = cacheonly_total (calls_of t)"
  using assms by (auto simp: cacheonly_reported_def reported_total_def)

lemma cacheonly_reported_count:
  "cacheonly_reported n t \<Longrightarrow> n < 100000 \<Longrightarrow> wlp insn_exec_count_insn (cacheonly_reported (Suc n)) t"
  by (auto simp: insn_exec_count_insn_def wp_simps cacheonly_reported_def calls_of_def small_suc)

lemma cacheonly_reported_move:
  assumes "cacheonly_reported n t" "n \<le> 100000" "td_output t = Some w"
  defines "p \<equiv> td_icount_cacheonly_pending t"
  shows "\<not> over_ff (t\<lparr>td_icount_reported := td_icount_reported t + p\<rparr>)"
    "cacheonly_total (w_calls w) + p = td_icount_reported t + p"
    "unat (cacheonly_total (w_calls w) + p) = n" "icount_total (w_calls w) = 0"
  using assms small_sums [of "w_calls w" p n]
  by (auto simp: cacheonly_reported_def over_ff_def FlowControlFF_def)

lemma cacheonly_reported_mem:
  "cacheonly_reported n t \<Longrightarrow> n \<le> 100000 \<Longrightarrow> wlp (mem_send_cacheonly u q va) (cacheonly_reported n) t"
  apply (cases "td_output t")
   apply (simp add: mem_send_cacheonly_def wp_simps)
  apply (frule (2) cacheonly_reported_move)
  apply (auto simp: mem_send_cacheonly_def add_cacheonly_def sync_if_over_ff_def wp_simps over_ff_def cacheonly_reported_def add.commute small_sum(1))
  done

lemma cacheonly_reported_branch:
  "cacheonly_reported n t \<Longrightarrow> n \<le> 100000 \<Longrightarrow> wlp (tb_exec_branch_cacheonly u) (cacheonly_reported n) t"
  apply (cases "td_output t")
   apply (simp add: tb_exec_branch_cacheonly_def wp_simps)
  apply (frule (2) cacheonly_reported_move)
  apply (auto simp: tb_exec_branch_cacheonly_def clear_branch_def add_cacheonly_def sync_if_over_ff_def wp_simps over_ff_def cacheonly_reported_def add.commute small_sum(1))
  done


lemma cacheonly_reported_step:
  assumes "not_icount e" "cacheonly_reported n t" "n + counts_insn e \<le> 100000"
  shows "wlp (thread_step roi mg e) (cacheonly_reported (n + counts_insn e)) t"
proof (cases "counts_event e")
  case True
  then consider (count) u q where "e = Exec Insn_Count_Insn u q"
    | (branch) u q where "e = Exec Tb_Branch_Cacheonly u q"
    | (mem) u q va where "e = Mem Mem_Send_Cacheonly u q va"
    using assms(1) by (cases e) (auto simp: counts_event_def not_icount_def)
  then show ?thesis
  proof cases
    case count
    then have "n < 100000" "counts_insn e = 1" using assms(3) by (simp_all add: counts_insn_def exec_at_def)
    with cacheonly_reported_count [OF assms(2)] count show ?thesis by simp
  next
    case branch
    then have "counts_insn e = 0" by (simp add: counts_insn_def exec_at_def)
    with cacheonly_reported_branch [OF assms(2)] assms(3) branch show ?thesis by simp
  next
    case mem
    then have "counts_insn e = 0" by (simp add: counts_insn_def exec_at_def)
    with cacheonly_reported_mem [OF assms(2)] assms(3) mem show ?thesis by simp
  qed
next
  case False
  then have "counts_insn e = 0"
    by (induction e rule: thread_step_cases) (simp_all add: counts_event_def counts_insn_def exec_at_def)
  with count_view_step [OF False, of roi mg t] assms(2) show ?thesis
    unfolding wlp_iff using cacheonly_reported_view by (metis add_0_right)
qed

lemma cacheonly_reported_run:
  "run (thread_step roi mg) es t = Inr t' \<Longrightarrow> \<forall>e \<in> set es. not_icount e \<Longrightarrow> cacheonly_reported n t \<Longrightarrow>
     n + sum_list (map counts_insn es) \<le> 100000 \<Longrightarrow> cacheonly_reported (n + sum_list (map counts_insn es)) t'"
proof (induction es arbitrary: t n)
  case (Cons e es)
  then obtain t1 where 1: "thread_step roi mg e t = Inr t1" "run (thread_step roi mg) es t1 = Inr t'"
    by (auto simp: bind_res_eq_Inr)
  have "cacheonly_reported (n + counts_insn e) t1"
    by (rule wlpD [OF cacheonly_reported_step 1(1)]) (use Cons.prems in simp_all)
  from Cons.IH [OF 1(2) _ this] Cons.prems show ?case by (simp add: add.assoc)
qed simp


lemma cacheonly_reported_blocks:
  "run (tb_step roi mg) es t = Inr t' \<Longrightarrow> \<forall>e \<in> set es. only ModeMemory e \<Longrightarrow> cacheonly_reported n t \<Longrightarrow>
     n + sum_list (map started_insns es) \<le> 100000 \<Longrightarrow>
     cacheonly_reported (n + sum_list (map started_insns es)) t'"
proof (induction es arbitrary: t n)
  case (Cons e es)
  then obtain t1 where 1: "tb_step roi mg e t = Inr t1" "run (tb_step roi mg) es t1 = Inr t'"
    by (auto simp: bind_res_eq_Inr)
  obtain evs where "run (thread_step roi mg) evs t = Inr t1" "\<forall>e \<in> set evs. not_icount e"
    "sum_list (map counts_insn evs) = started_insns e"
    using memory_block_events [OF _ 1(1)] Cons.prems(2) by (auto simp: sum_counts_insn)
  from cacheonly_reported_run [OF this(1,2) Cons.prems(3)] this(3) Cons.prems(4)
  have "cacheonly_reported (n + started_insns e) t1" by simp
  from Cons.IH [OF 1(2) _ this] Cons.prems show ?case by (simp add: add.assoc)
qed simp

text \<open>In the fast-forward mode \<open>InstructionCount\<close> reports whatever is in \<open>icount_reported\<close>.\<close>

lemma icount_blocks_report:
  "run (tb_step roi mg) es t = Inr t' \<Longrightarrow> \<forall>e \<in> set es. only ModeIcount e \<Longrightarrow>
     reported_total t' = reported_total t + sum_list (map insns_of es) \<and>
     cacheonly_total (calls_of t') = cacheonly_total (calls_of t) \<and>
     td_icount_cacheonly_pending t' = td_icount_cacheonly_pending t"
proof (induction es arbitrary: t)
  case (Cons e es)
  then obtain t1 where 1: "tb_step roi mg e t = Inr t1" "run (tb_step roi mg) es t1 = Inr t'"
    by (auto simp: bind_res_eq_Inr)
  have "reported_total t1 = reported_total t + insns_of e \<and>
      cacheonly_total (calls_of t1) = cacheonly_total (calls_of t) \<and>
      td_icount_cacheonly_pending t1 = td_icount_cacheonly_pending t"
    using 1(1) Cons.prems(2)
    by (auto simp: icount_block_step tb_exec_count_insns_def run_simps emit_def over_ff_def reported_total_def
        calls_of_def split: option.splits if_splits)
  with Cons.IH [OF 1(2)] Cons.prems(2) show ?case by (simp add: add.assoc)
qed simp

section \<open>Synchronisation in the detailed mode\<close>

lemma output_step:
  "td_output t \<noteq> None \<Longrightarrow> wlp (thread_step roi mg e) (\<lambda>t'. td_output t' \<noteq> None) t"
  by (induction e rule: thread_step_cases) (auto simp: handler_defs wp_simps)

interpretation has_output: invariant_machine "thread_step roi mg" "\<lambda>_. True" "\<lambda>t. td_output t \<noteq> None"
  by (rule invariant_machineI) (rule output_step)

text \<open>What one processor does: it executes blocks, and the processor events arrive in between.\<close>

datatype proc_event = Block_Run u64 u64 "sift_mode \<times> tb_run" | Event thread_event

definition proc_step :: "proc_event \<Rightarrow> thread_data stmt" where
  "proc_step e = (case e of
     Block_Run roi mg b \<Rightarrow> tb_step roi mg b
   | Event ev \<Rightarrow> thread_step 0 0 ev)"

definition proc_ok :: "proc_event \<Rightarrow> bool" where
  "proc_ok e = (case e of Block_Run roi mg b \<Rightarrow> tb_run_ok b | Event ev \<Rightarrow> cpu_event ev)"

text \<open>What the trace says of the processor.\<close>

definition awake :: "thread_data \<Rightarrow> bool" where
  "awake t \<longleftrightarrow> idle_track True (calls_of t) = Some False"

text \<open>The instructions that a step to state \<open>t\<close> starts in the detailed mode on an awake processor.\<close>

definition detailed_insns :: "thread_data \<Rightarrow> proc_event \<Rightarrow> nat" where
  "detailed_insns t e = (case e of
     Block_Run roi mg (mode, tb, q, runs) \<Rightarrow> if mode = ModeDetailed \<and> awake t then length runs else 0
   | Event ev \<Rightarrow> 0)"

fun awake_insns :: "thread_data \<Rightarrow> proc_event list \<Rightarrow> nat" where
  "awake_insns t [] = 0"
| "awake_insns t (e # es) = (case proc_step e t of
     Inl f \<Rightarrow> 0
   | Inr t' \<Rightarrow> detailed_insns t' e + awake_insns t' es)"

definition flow_inv :: "thread_data \<Rightarrow> bool" where
  "flow_inv t \<longleftrightarrow> unat (td_icount_detailed t) \<le> unat (td_flowcontrol_target t) \<and>
     unat (td_flowcontrol_target t) \<le> unat (td_icount_detailed t) + 1000"

definition syncs :: "thread_data \<Rightarrow> nat" where
  "syncs t = length (filter (\<lambda>c. c = Sync) (calls_of t))"

text \<open>The target moves only together with a \<open>Sync\<close> call.\<close>

definition synced_since :: "thread_data \<Rightarrow> thread_data \<Rightarrow> bool" where
  "synced_since t0 t \<longleftrightarrow> syncs t0 \<le> syncs t \<and>
     (syncs t = syncs t0 \<longrightarrow> td_flowcontrol_target t = td_flowcontrol_target t0)"

lemma synced_since_step: "synced_since t0 t \<Longrightarrow> wlp (thread_step roi mg e) (synced_since t0) t"
  by (induction e rule: thread_step_cases)
     (auto simp: handler_defs wp_simps synced_since_def syncs_def calls_of_def)

interpretation synced: invariant_machine "thread_step roi mg" "\<lambda>_. True" "synced_since t0"
  by (rule invariant_machineI) (rule synced_since_step)

lemma unat_plus_small: "unat x + k < 2 ^ 64 \<Longrightarrow> unat (x + of_nat k :: u64) = unat x + k"
  by (simp add: unat_word_ariths unat_of_nat)

lemmas flow_arith = unat_plus_small [of _ 1, simplified] unat_plus_small [of _ 1000, simplified]

definition keeps_idle :: "thread_event \<Rightarrow> bool" where
  "keeps_idle e = (case e of Exec f _ _ \<Rightarrow> f \<noteq> Tb_Branch_Detailed | Mem _ _ _ _ \<Rightarrow> True | _ \<Rightarrow> False)"

lemma keeps_idle_step: "keeps_idle e \<Longrightarrow> wlp (thread_step roi mg e) (\<lambda>t'. td_idle t' = td_idle t) t"
  by (induction e rule: thread_step_cases) (auto simp: handler_defs wp_simps keeps_idle_def)

interpretation idle_kept: invariant_machine "thread_step roi mg" keeps_idle "\<lambda>t. td_idle t = b"
  by (rule invariant_machineI) (auto dest: keeps_idle_step)

lemma flow_counts:
  "flow_inv t \<Longrightarrow> unat (td_icount_detailed t) + 2000 < 2 ^ 64 \<Longrightarrow>
     wlp (thread_step roi mg e) (\<lambda>t'. flow_inv t' \<and> unat (td_icount_detailed t') =
       unat (td_icount_detailed t) + (if is_exec Insn_Update_Pc e \<and> \<not> td_idle t then 1 else 0)) t"
  by (induction e rule: thread_step_cases)
     (auto simp: handler_defs wp_simps flow_inv_def FlowControl_def flow_arith word_less_nat_alt exec_at_def)

text \<open>Runs without the counting callback, and runs in which the processor stays as idle as it is.\<close>

lemma flow_entry:
  "run (thread_step roi mg) es t = Inr t' \<Longrightarrow> \<forall>e \<in> set es. \<not> is_exec Insn_Update_Pc e \<Longrightarrow> flow_inv t \<Longrightarrow>
     unat (td_icount_detailed t) + 2000 < 2 ^ 64 \<Longrightarrow>
     flow_inv t' \<and> unat (td_icount_detailed t') = unat (td_icount_detailed t)"
proof (induction es arbitrary: t)
  case (Cons e es)
  then obtain t1 where 1: "thread_step roi mg e t = Inr t1" "run (thread_step roi mg) es t1 = Inr t'"
    by (auto simp: bind_res_eq_Inr)
  from wlpD [OF flow_counts [OF Cons.prems(3,4)] 1(1)] Cons.IH [OF 1(2)] Cons.prems(2,4) show ?case by simp
qed simp

lemma flow_body:
  "run (thread_step roi mg) es t = Inr t' \<Longrightarrow> \<forall>e \<in> set es. keeps_idle e \<Longrightarrow> flow_inv t \<Longrightarrow>
     n = (if td_idle t then 0 else length (filter (is_exec Insn_Update_Pc) es)) \<Longrightarrow>
     unat (td_icount_detailed t) + n + 2000 < 2 ^ 64 \<Longrightarrow>
     flow_inv t' \<and> td_idle t' = td_idle t \<and> unat (td_icount_detailed t') = unat (td_icount_detailed t) + n"
proof (induction es arbitrary: t n)
  case (Cons e es)
  then obtain t1 where 1: "thread_step roi mg e t = Inr t1" "run (thread_step roi mg) es t1 = Inr t'"
    by (auto simp: bind_res_eq_Inr)
  have c: "flow_inv t1 \<and> unat (td_icount_detailed t1) =
      unat (td_icount_detailed t) + (if is_exec Insn_Update_Pc e \<and> \<not> td_idle t then 1 else 0)"
    by (rule wlpD [OF flow_counts 1(1)]) (use Cons.prems in simp_all)
  have i: "td_idle t1 = td_idle t"
    using wlpD [OF keeps_idle_step 1(1)] Cons.prems(2) by simp
  from c Cons.IH [OF 1(2) _ _ refl] Cons.prems show ?case by (simp add: i split: if_splits)
qed simp

lemma block_flow_events:
  assumes "tb_ok tb" "vcpu_tb_trans_cb mode tb = Inr r" "length runs \<le> length (tb_insns tb)"
  shows "\<forall>e \<in> set (entry_events r q). \<not> is_exec Insn_Update_Pc e"
    "\<forall>e \<in> set (body_events r runs). keeps_idle e"
    "length (filter (exec_at P Insn_Update_Pc) (body_events r runs)) =
       (if mode = ModeDetailed then length (filter (\<lambda>x. P (fst x)) runs) else 0)"
proof -
  show "\<forall>e \<in> set (entry_events r q). \<not> is_exec Insn_Update_Pc e"
    using assms(1,2)
    by (cases mode) (auto simp: entry_events_def tb_ok_def trans_icount trans_memory_mode trans_detailed_mode
        trans_other exec_at_def split: if_splits)
  show "\<forall>e \<in> set (body_events r runs). keeps_idle e"
  proof
    fix e assume "e \<in> set (body_events r runs)"
    then show "keeps_idle e"
      using assms(1,2)
      by (cases rule: body_event_cases; cases mode)
         (auto simp: tb_ok_def trans_icount trans_memory_mode trans_detailed_mode trans_other keeps_idle_def
           memory_execs_def detailed_execs_def dest!: set_add_last split: if_splits)
  qed
  have "length (filter (exec_at P Insn_Update_Pc) (body_events r runs)) =
      (if mode = ModeDetailed then 1 else 0) * length (filter (\<lambda>x. P (fst x)) runs)"
    using assms
    by (intro filter_exec_body)
       (cases mode; auto simp: tb_ok_def trans_icount trans_memory_mode trans_detailed_mode trans_other
           memory_execs_def detailed_execs_def filter_empty_conv dest!: set_add_last split: if_splits)+
  then show "length (filter (exec_at P Insn_Update_Pc) (body_events r runs)) =
      (if mode = ModeDetailed then length (filter (\<lambda>x. P (fst x)) runs) else 0)" by simp
qed

lemma awake_iff: "idle_inv t \<Longrightarrow> td_output t \<noteq> None \<Longrightarrow> awake t \<longleftrightarrow> \<not> td_idle t"
  by (auto simp: awake_def idle_inv_def)

text \<open>Every step counts the instructions it starts, exactly.\<close>

lemma proc_events:
  assumes "proc_step e t = Inr t'"
  shows "\<exists>roi mg es. run (thread_step roi mg) es t = Inr t'"
proof (cases e)
  case (Block_Run roi mg b)
  with assms show ?thesis
    by (cases b) (auto simp: proc_step_def tb_step_def bind_res_eq_Inr run_block_events)
next
  case (Event ev)
  with assms have "run (thread_step 0 0) [ev] t = Inr t'" by (simp add: proc_step_def)
  then show ?thesis by blast
qed

lemma proc_keeps_idle_inv: "proc_step e t = Inr t' \<Longrightarrow> idle_inv t \<Longrightarrow> idle_inv t'"
  using proc_events idle.run_inv by fastforce

lemma proc_keeps_output: "proc_step e t = Inr t' \<Longrightarrow> td_output t \<noteq> None \<Longrightarrow> td_output t' \<noteq> None"
  using proc_events has_output.run_inv by fastforce

lemma proc_synced: "proc_step e t = Inr t' \<Longrightarrow> synced_since t0 t \<Longrightarrow> synced_since t0 t'"
  using proc_events synced.run_inv by fastforce

lemma proc_flow:
  assumes "proc_ok e" "proc_step e t = Inr t'" "idle_inv t" "td_output t \<noteq> None" "flow_inv t"
    "unat (td_icount_detailed t) + detailed_insns t' e + 2000 < 2 ^ 64"
  shows "flow_inv t' \<and> unat (td_icount_detailed t') = unat (td_icount_detailed t) + detailed_insns t' e"
proof (cases e)
  case (Event ev)
  then have "run (thread_step 0 0) [ev] t = Inr t'" "\<not> is_exec Insn_Update_Pc ev"
    using assms(1,2) by (cases ev; simp add: proc_step_def proc_ok_def exec_at_def)+
  from flow_entry [OF this(1) _ assms(5)] this(2) assms(6) show ?thesis
    by (simp add: Event detailed_insns_def)
next
  case (Block_Run roi mg b)
  obtain mode tb q runs where b: "b = (mode, tb, q, runs)" by (cases b)
  then have ok: "tb_ok tb" "length runs \<le> length (tb_insns tb)"
    using assms(1) by (simp_all add: proc_ok_def Block_Run tb_run_ok_def)
  from assms(2) obtain r t1 where r: "vcpu_tb_trans_cb mode tb = Inr r"
    and 1: "run (thread_step roi mg) (entry_events r q) t = Inr t1"
    and 2: "run (thread_step roi mg) (body_events r runs) t1 = Inr t'"
    by (auto simp: proc_step_def Block_Run b tb_step_def bind_res_eq_Inr run_block_events block_events_split run_append)
  note ev = block_flow_events [OF ok(1) r ok(2)]
  have e: "flow_inv t1" "unat (td_icount_detailed t1) = unat (td_icount_detailed t)"
    using flow_entry [OF 1 ev(1) assms(5)] assms(6) by simp_all
  have i: "td_idle t' = td_idle t1" using idle_kept.run_inv [OF ev(2) _ 2] by simp
  have "awake t' \<longleftrightarrow> \<not> td_idle t1"
    using awake_iff proc_keeps_idle_inv [OF assms(2,3)] proc_keeps_output [OF assms(2,4)] i by simp
  then have n: "detailed_insns t' e = (if td_idle t1 then 0 else length (filter (is_exec Insn_Update_Pc) (body_events r runs)))"
    by (simp add: Block_Run b detailed_insns_def ev(3))
  from flow_body [OF 2 ev(2) e(1) n] e(2) assms(6) show ?thesis by simp
qed


lemma proc_run:
  assumes "run proc_step es t = Inr t'" "\<forall>e \<in> set es. proc_ok e" "idle_inv t" "td_output t \<noteq> None"
    "flow_inv t" "unat (td_icount_detailed t) + awake_insns t es + 2000 < 2 ^ 64" "synced_since t0 t"
  shows "flow_inv t' \<and> idle_inv t' \<and> td_output t' \<noteq> None \<and> synced_since t0 t' \<and>
    unat (td_icount_detailed t') = unat (td_icount_detailed t) + awake_insns t es"
  using assms
proof (induction es arbitrary: t)
  case (Cons e es)
  then obtain t1 where 1: "proc_step e t = Inr t1" "run proc_step es t1 = Inr t'"
    by (auto simp: bind_res_eq_Inr)
  have n: "awake_insns t (e # es) = detailed_insns t1 e + awake_insns t1 es" by (simp add: 1(1))
  have f: "flow_inv t1 \<and> unat (td_icount_detailed t1) = unat (td_icount_detailed t) + detailed_insns t1 e"
    by (rule proc_flow) (use Cons.prems 1(1) n in auto)
  from Cons.IH [OF 1(2)] f n Cons.prems proc_keeps_idle_inv [OF 1(1)] proc_keeps_output [OF 1(1)] proc_synced [OF 1(1)]
  show ?case by simp
qed simp

lemma awake_insns_append:
  "run proc_step es t = Inr t' \<Longrightarrow> awake_insns t (es @ fs) = awake_insns t es + awake_insns t' fs"
  by (induction es arbitrary: t) (auto simp: bind_res_eq_Inr split: sum.splits)



section \<open>The counters of the detailed mode\<close>

text \<open>The instructions of a step that start with the page directory of the region of interest.\<close>

definition user_insns :: "thread_data \<Rightarrow> proc_event \<Rightarrow> nat" where
  "user_insns t e = (case e of
     Block_Run roi mg (mode, tb, q, runs) \<Rightarrow>
       if mode = ModeDetailed \<and> awake t then length (filter (\<lambda>x. q_page_directory (fst x) = roi) runs) else 0
   | Event ev \<Rightarrow> 0)"

fun awake_user_insns :: "thread_data \<Rightarrow> proc_event list \<Rightarrow> nat" where
  "awake_user_insns t [] = 0"
| "awake_user_insns t (e # es) = (case proc_step e t of
     Inl f \<Rightarrow> 0
   | Inr t' \<Rightarrow> user_insns t' e + awake_user_insns t' es)"

abbreviation in_user :: "u64 \<Rightarrow> qemu_view \<Rightarrow> bool" where
  "in_user roi q \<equiv> q_page_directory q = roi"

definition counters_moved :: "thread_data \<Rightarrow> nat \<Rightarrow> nat \<Rightarrow> thread_data \<Rightarrow> bool" where
  "counters_moved t n k t' \<longleftrightarrow> td_icount_detailed t' = td_icount_detailed t + of_nat n \<and>
     td_icount_user t' = td_icount_user t + of_nat k"

lemma counters_step:
  "wlp (thread_step roi mg e) (counters_moved t
     (if is_exec Insn_Update_Pc e \<and> \<not> td_idle t then 1 else 0)
     (if exec_at (in_user roi) Insn_Update_Pc e \<and> \<not> td_idle t then 1 else 0)) t"
  by (induction e rule: thread_step_cases)
     (auto simp: handler_defs wp_simps counters_moved_def exec_at_def)

lemma counters_moved_trans:
  "counters_moved t n k t1 \<Longrightarrow> counters_moved t1 m j t2 \<Longrightarrow> counters_moved t (n + m) (k + j) t2"
  by (simp add: counters_moved_def add.assoc)

lemma counters_entry:
  "run (thread_step roi mg) es t = Inr t' \<Longrightarrow> \<forall>e \<in> set es. \<not> is_exec Insn_Update_Pc e \<Longrightarrow> counters_moved t 0 0 t'"
proof (induction es arbitrary: t)
  case Nil
  then show ?case by (simp add: counters_moved_def)
next
  case (Cons e es)
  then obtain t1 where 1: "thread_step roi mg e t = Inr t1" "run (thread_step roi mg) es t1 = Inr t'"
    by (auto simp: bind_res_eq_Inr)
  have n: "\<not> is_exec Insn_Update_Pc e" "\<not> exec_at (in_user roi) Insn_Update_Pc e"
    using Cons.prems(2) by (auto simp: exec_at_def split: thread_event.splits)
  then have "counters_moved t 0 0 t1" using wlpD [OF counters_step 1(1)] by simp
  from counters_moved_trans [OF this Cons.IH [OF 1(2)]] Cons.prems(2) show ?case by simp
qed

lemma counters_body:
  "run (thread_step roi mg) es t = Inr t' \<Longrightarrow> \<forall>e \<in> set es. keeps_idle e \<Longrightarrow>
     counters_moved t (if td_idle t then 0 else length (filter (is_exec Insn_Update_Pc) es))
       (if td_idle t then 0 else length (filter (exec_at (in_user roi) Insn_Update_Pc) es)) t'"
proof (induction es arbitrary: t)
  case Nil
  then show ?case by (simp add: counters_moved_def)
next
  case (Cons e es)
  then obtain t1 where 1: "thread_step roi mg e t = Inr t1" "run (thread_step roi mg) es t1 = Inr t'"
    by (auto simp: bind_res_eq_Inr)
  have i: "td_idle t1 = td_idle t"
    using wlpD [OF keeps_idle_step 1(1)] Cons.prems(2) by simp
  from counters_moved_trans [OF wlpD [OF counters_step 1(1)] Cons.IH [OF 1(2)]] Cons.prems(2) i show ?case
    by (auto split: if_splits)
qed

lemma proc_counters:
  assumes "proc_ok e" "proc_step e t = Inr t'" "idle_inv t" "td_output t \<noteq> None"
  shows "counters_moved t (detailed_insns t' e) (user_insns t' e) t'"
proof (cases e)
  case (Event ev)
  then have "run (thread_step 0 0) [ev] t = Inr t'" "\<not> is_exec Insn_Update_Pc ev"
    using assms(1,2) by (cases ev; simp add: proc_step_def proc_ok_def exec_at_def)+
  from counters_entry [OF this(1)] this(2) show ?thesis by (simp add: Event detailed_insns_def user_insns_def)
next
  case (Block_Run roi mg b)
  obtain mode tb q runs where b: "b = (mode, tb, q, runs)" by (cases b)
  then have ok: "tb_ok tb" "length runs \<le> length (tb_insns tb)"
    using assms(1) by (simp_all add: proc_ok_def Block_Run tb_run_ok_def)
  from assms(2) obtain r t1 where r: "vcpu_tb_trans_cb mode tb = Inr r"
    and 1: "run (thread_step roi mg) (entry_events r q) t = Inr t1"
    and 2: "run (thread_step roi mg) (body_events r runs) t1 = Inr t'"
    by (auto simp: proc_step_def Block_Run b tb_step_def bind_res_eq_Inr run_block_events block_events_split run_append)
  note ev = block_flow_events [OF ok(1) r ok(2)]
  have i: "td_idle t' = td_idle t1" using idle_kept.run_inv [OF ev(2) _ 2] by simp
  have "awake t' \<longleftrightarrow> \<not> td_idle t1"
    using awake_iff proc_keeps_idle_inv [OF assms(2,3)] proc_keeps_output [OF assms(2,4)] i by simp
  then have n: "detailed_insns t' e = (if td_idle t1 then 0 else length (filter (is_exec Insn_Update_Pc) (body_events r runs)))"
    "user_insns t' e = (if td_idle t1 then 0 else length (filter (exec_at (in_user roi) Insn_Update_Pc) (body_events r runs)))"
    by (simp_all add: Block_Run b detailed_insns_def user_insns_def ev(3))
  from counters_moved_trans [OF counters_entry [OF 1 ev(1)] counters_body [OF 2 ev(2)]] show ?thesis by (simp add: n)
qed

lemma proc_run_counters:
  assumes "run proc_step es t = Inr t'" "\<forall>e \<in> set es. proc_ok e" "idle_inv t" "td_output t \<noteq> None"
  shows "counters_moved t (awake_insns t es) (awake_user_insns t es) t'"
  using assms
proof (induction es arbitrary: t)
  case Nil
  then show ?case by (simp add: counters_moved_def)
next
  case (Cons e es)
  then obtain t1 where 1: "proc_step e t = Inr t1" "run proc_step es t1 = Inr t'"
    by (auto simp: bind_res_eq_Inr)
  have "counters_moved t (detailed_insns t1 e) (user_insns t1 e) t1"
    by (rule proc_counters) (use Cons.prems 1(1) in auto)
  from counters_moved_trans [OF this Cons.IH [OF 1(2)]] Cons.prems proc_keeps_idle_inv [OF 1(1)] proc_keeps_output [OF 1(1)]
  show ?case by (simp add: 1(1))
qed

lemma proc_step_safe: "proc_ok e \<Longrightarrow> br_inv t \<Longrightarrow> wp (proc_step e) br_inv t"
proof (cases e)
  case (Block_Run roi mg b)
  assume "proc_ok e" "br_inv t"
  with Block_Run show ?thesis using tb_step_safe [of b t roi mg]
    by (simp add: proc_ok_def proc_step_def wp_def)
next
  case (Event ev)
  assume "proc_ok e" "br_inv t"
  then have "no_branch_event ev" by (cases ev) (auto simp: Event proc_ok_def no_branch_event_def)
  from br_step [OF this \<open>br_inv t\<close>, of 0 0] show ?thesis by (simp add: Event proc_step_def wp_def)
qed

interpretation procs: safe_machine proc_step proc_ok br_inv
  by (rule safe_machineI) (rule proc_step_safe)

lemma detailed_proc: "detailed_inv t \<Longrightarrow> proc_step e t = Inr t' \<Longrightarrow> detailed_inv t'"
  using proc_events detailed.run_inv by fastforce

interpretation detailed_procs: invariant_machine proc_step "\<lambda>_. True" detailed_inv
  by unfold_locales (rule detailed_proc)

text \<open>C18: The instruction counters that \<open>stop\<close> prints for the detailed mode are exact: from the start of a recording, whatever
  blocks a processor executes in whatever modes and whatever events arrive, no step fails, and (modulo
  \<open>2^64\<close>) \<open>icount_detailed\<close> is the number of instructions that were executed in the detailed mode while
  the trace says that the processor is not idle, \<open>icount_user\<close> the number of those that ran with
  the page directory of the region of interest, and \<open>icount_other\<close> the number of the rest.\<close>

theorem trace_detailed_counters:
  assumes "fresh_thread t" "\<forall>e \<in> set es. proc_ok e"
  shows "\<exists>t'. run proc_step es t = Inr t' \<and>
    td_icount_detailed t' = of_nat (awake_insns t es) \<and>
    td_icount_user t' = of_nat (awake_user_insns t es) \<and>
    td_icount_other t' = of_nat (awake_insns t es) - of_nat (awake_user_insns t es)"
proof -
  have t: "br_inv t" "idle_inv t" "td_output t \<noteq> None" "detailed_inv t"
    "td_icount_detailed t = 0" "td_icount_user t = 0"
    using assms(1) by (auto simp: fresh_thread_def br_inv_def idle_inv_def calls_of_def detailed_inv_def)
  from procs.run_safe [OF assms(2) t(1)] obtain t' where t': "run proc_step es t = Inr t'" by blast
  from proc_run_counters [OF t' assms(2) t(2,3)] detailed_procs.run_inv [OF _ t(4) t'] t' show ?thesis
    by (auto simp: counters_moved_def t detailed_inv_def)
qed

theorem trace_detailed_counters_witness:
  "\<exists>t'. run proc_step [Event Resume, Block_Run 0x6000 0 (demo_run_of ModeDetailed 0x1000),
      Block_Run 0x5000 0 (demo_run_of ModeDetailed 0x2000)] demo_thread = Inr t' \<and>
    td_icount_detailed t' = 2 \<and> td_icount_user t' = 1 \<and> td_icount_other t' = 1"
proof -
  let ?es = "[Event Resume, Block_Run 0x6000 0 (demo_run_of ModeDetailed 0x1000),
      Block_Run 0x5000 0 (demo_run_of ModeDetailed 0x2000)]"
  have "\<forall>e \<in> set ?es. proc_ok e"
    using demo_only [of "0x1000" ModeDetailed] demo_only [of "0x2000" ModeDetailed] by (simp add: proc_ok_def only_def)
  note c = trace_detailed_counters [OF demo_fresh this]
  have "awake_insns demo_thread ?es = 2" "awake_user_insns demo_thread ?es = 1"
    by (simp_all add: detailed_insns_def user_insns_def proc_step_def tb_step_def demo_run_of_def demo_run in_roi_def
        awake_def calls_of_def)
  with c show ?thesis by simp
qed

section \<open>Idle and resume\<close>

text \<open>C8: The \<open>VCPUIdle\<close> and \<open>VCPUResume\<close> calls of a processor alternate, starting with a resume, in
  every execution of the callbacks, and \<open>idle\<close> tells which of the two came last, although
  three different callbacks make these calls.\<close>

theorem trace_idle_alternates:
  assumes "fresh_thread t" "run (thread_step roi mg) es t = Inr t'"
  shows "idle_track True (calls_of t') = Some (td_idle t')"
proof -
  have "idle_inv t" using assms(1) by (auto simp: fresh_thread_def idle_inv_def calls_of_def)
  from idle.run_inv [OF _ this assms(2)] have "idle_inv t'" by simp
  moreover have "td_output t' \<noteq> None"
    using has_output.run_inv [OF _ _ assms(2)] assms(1) by (simp add: fresh_thread_def)
  ultimately show ?thesis by (auto simp: idle_inv_def calls_of_def split: option.splits)
qed

theorem trace_idle_alternates_witness:
  "\<exists>t'. run (thread_step 0x5000 0) [Resume, Idle ModeDetailed, Idle ModeDetailed, Resume] demo_thread = Inr t' \<and>
     idle_track True (calls_of t') = Some False"
proof -
  obtain t' where t': "run (thread_step 0x5000 0) [Resume, Idle ModeDetailed, Idle ModeDetailed, Resume]
      demo_thread = Inr t'" "\<not> td_idle t'"
    by (simp add: demo_run)
  from trace_idle_alternates [OF demo_fresh t'(1)] t' show ?thesis by auto
qed

end
