(* ===== verification/Trace_Recorder.thy ===== *)
theory Trace_Recorder
  imports Trace_Control Trace_Counts
begin

text \<open>
  The recorder as a whole: its state machine over commands, jobs that QEMU runs later, executed
  blocks and processor events, in any order. The theorems say which steps can fault, that every
  other step keeps the recorder's invariant, and what some orders of commands do.
\<close>

section \<open>The state machine\<close>

datatype trace_event =
    Command nat "string option" "string list"
  | Run_Job nat nat
  | Block_Exec nat sift_mode tb_run
  | Cpu_Event nat thread_event
  | Syscall int qemu_view

definition no_effects :: "'s step_result \<Rightarrow> fault + 's" where
  "no_effects r = bind_res r (\<lambda>(s, es). Inr s)"

text \<open>
  QEMU delivers instrumentation callbacks only while they are registered; commands and jobs run
  at any time.
\<close>

definition trace_step :: "trace_env \<Rightarrow> trace_event \<Rightarrow> trace_state stmt" where
  "trace_step env e s = (case e of
     Command cpu dir args \<Rightarrow> no_effects (trace_command env cpu dir args s)
   | Run_Job k cpu \<Rightarrow> no_effects (run_job env k cpu s)
   | Block_Exec i mode b \<Rightarrow>
       if tr_registered s
       then (case b of (tb, q, runs) \<Rightarrow>
         bind_res (vcpu_tb_trans_cb mode tb) (\<lambda>r. exec_block i r q runs s))
       else Inr s
   | Cpu_Event i ev \<Rightarrow>
       if tr_registered s then on_thread i (thread_step (tr_roi_cr3 s) (tr_magic s) ev) s else Inr s
   | Syscall num q \<Rightarrow> if tr_registered s then vcpu_syscall_cb num q s else Inr s)"

section \<open>The invariant\<close>

definition thread_ok :: "thread_data \<Rightarrow> bool" where
  "thread_ok t \<longleftrightarrow> br_inv t \<and> idle_inv t"

definition fifos :: "string \<Rightarrow> trace_state \<Rightarrow> string list" where
  "fifos d s = concat (map (\<lambda>i. [vcpu_file d i, response_file d i]) (vcpus s))"

definition recorder_inv :: "trace_state \<Rightarrow> bool" where
  "recorder_inv s \<longleftrightarrow> sized s \<and> 0 < tr_smp_vcpus s \<and> tr_registered s = tr_recording s \<and>
     (tr_recording s \<longrightarrow> (\<exists>d. tr_trace_files s = fifos d s) \<and>
        (\<forall>i < unat (tr_smp_vcpus s). thread_ok (tr_thread_data s ! i))) \<and>
     (\<not> tr_recording s \<longrightarrow> tr_trace_files s = [] \<and>
        (\<forall>i < unat (tr_smp_vcpus s). td_output (tr_thread_data s ! i) = None))"

text \<open>
  When a step may be taken. A segment command needs a recording, and so does a mode switch that
  runs late; \<open>detailed\<close> needs all files open; \<open>magic\<close> needs its argument; and the
  temporary directory must be made.
\<close>

definition gmm_ok :: "trace_state \<Rightarrow> string \<Rightarrow> bool" where
  "gmm_ok s c \<longleftrightarrow> tr_recording s \<or> c \<notin> {''create'', ''assign'', ''delete'', ''message'', ''sync''} \<or>
     (c \<in> {''message'', ''sync''} \<and> tr_current_mode s \<noteq> ModeDetailed)"

definition command_ok :: "trace_env \<Rightarrow> string option \<Rightarrow> string list \<Rightarrow> trace_state \<Rightarrow> bool" where
  "command_ok env dir args s \<longleftrightarrow>
     (if args = [] \<or> hd args = ''start'' then
        tr_recording s \<or> dir \<noteq> None \<or> te_mkdtemp env (refresh_template (tr_output_dir_template s)) \<noteq> None
      else if hd args = ''mode'' then
        1 < length args \<and> args ! 1 = ''detailed'' \<and> tr_recording s \<and> tr_current_mode s \<noteq> ModeDetailed
          \<longrightarrow> all_open s
      else if hd args = ''gmm'' then 3 < length args \<longrightarrow> gmm_ok s (args ! 1)
      else if hd args = ''magic'' then 1 < length args
      else True)"

definition step_ok :: "trace_env \<Rightarrow> trace_event \<Rightarrow> trace_state \<Rightarrow> bool" where
  "step_ok env e s = (case e of
     Command cpu dir args \<Rightarrow> command_ok env dir args s
   | Run_Job k cpu \<Rightarrow> (\<forall>m. k < length (tr_jobs s) \<and> tr_jobs s ! k = Job_Mode m \<longrightarrow> tr_recording s)
   | _ \<Rightarrow> True)"

text \<open>What QEMU guarantees: existing processors, well-formed blocks.\<close>

definition event_wf :: "trace_event \<Rightarrow> trace_state \<Rightarrow> bool" where
  "event_wf e s = (case e of
     Command cpu dir args \<Rightarrow> cpu < unat (tr_smp_vcpus s)
   | Run_Job k cpu \<Rightarrow> cpu < unat (tr_smp_vcpus s)
   | Block_Exec i mode b \<Rightarrow> i < unat (tr_smp_vcpus s) \<and> tb_run_ok (mode, b)
   | Cpu_Event i ev \<Rightarrow> i < unat (tr_smp_vcpus s) \<and> cpu_event ev
   | Syscall num q \<Rightarrow> True)"

section \<open>Steps on one processor keep the invariant\<close>

lemma recorder_inv_thread:
  assumes "recorder_inv s" "i < unat (tr_smp_vcpus s)" "tr_recording s"
    "h (tr_thread_data s ! i) = Inr t" "thread_ok t"
  shows "\<exists>s'. on_thread i h s = Inr s' \<and> recorder_inv s' \<and> tr_smp_vcpus s' = tr_smp_vcpus s \<and>
    tr_recording s' \<and> s' = s\<lparr>tr_thread_data := (tr_thread_data s)[i := t]\<rparr>"
  using assms
  by (auto simp: on_thread_def recorder_inv_def sized_def nth_list_update fifos_def vcpus_def)

text \<open>Calls that are not idle or resume calls.\<close>

definition plain_call :: "sift_call \<Rightarrow> bool" where
  "plain_call c \<longleftrightarrow> c \<noteq> VCPUIdle \<and> c \<noteq> VCPUResume"

lemma emit_ok:
  "thread_ok t \<Longrightarrow> plain_call c \<Longrightarrow> \<exists>t'. emit (\<lambda>_. c) t = Inr t' \<and> thread_ok t'"
  by (auto simp: thread_ok_def br_inv_def idle_inv_def emit_def idle_track_append plain_call_def)

lemma emit_thread:
  assumes "recorder_inv s" "i < unat (tr_smp_vcpus s)" "tr_recording s" "plain_call c"
  shows "\<exists>s'. on_thread i (emit (\<lambda>_. c)) s = Inr s' \<and> recorder_inv s' \<and>
    tr_smp_vcpus s' = tr_smp_vcpus s \<and> tr_recording s' \<and> tr_jobs s' = tr_jobs s"
proof -
  have "thread_ok (tr_thread_data s ! i)" using assms by (simp add: recorder_inv_def)
  from emit_ok [OF this assms(4)] obtain t where
    "emit (\<lambda>_. c) (tr_thread_data s ! i) = Inr t" "thread_ok t" by blast
  from recorder_inv_thread [where h = "emit (\<lambda>_. c)", OF assms(1-3) this] show ?thesis by auto
qed

lemma emit_thread_null:
  assumes "recorder_inv s" "i < unat (tr_smp_vcpus s)" "\<not> tr_recording s"
  shows "on_thread i (emit c) s = Inl Null_Deref"
  using assms by (simp add: on_thread_def recorder_inv_def sized_def emit_def)

lemma cpu_event_ok:
  assumes "thread_ok t" "cpu_event ev"
  shows "\<exists>t'. thread_step roi mg ev t = Inr t' \<and> thread_ok t'"
proof -
  have "no_branch_event ev" using assms(2) by (cases ev) (auto simp: no_branch_event_def)
  moreover have "br_inv t" using assms(1) by (simp add: thread_ok_def)
  ultimately obtain t' where t': "thread_step roi mg ev t = Inr t'" "br_inv t'"
    using br_step [of ev t roi mg] by (auto simp: wp_iff)
  have "idle_inv t'" using wlpD [OF idle_step t'(1)] assms(1) by (simp add: thread_ok_def)
  with t' show ?thesis by (simp add: thread_ok_def)
qed

lemma block_ok:
  assumes "thread_ok t" "tb_ok tb" "vcpu_tb_trans_cb mode tb = Inr r"
  shows "\<exists>t'. run_block roi mg r q runs t = Inr t' \<and> thread_ok t'"
proof -
  have "br_inv t" using assms(1) by (simp add: thread_ok_def)
  from block_safe [OF assms(2,3) this] obtain t' where
    t': "run_block roi mg r q runs t = Inr t'" "br_inv t'" by blast
  from idle.run_inv [OF _ _ t'(1) [unfolded run_block_events]] assms(1) have "idle_inv t'"
    by (simp add: thread_ok_def)
  with t' show ?thesis by (simp add: thread_ok_def)
qed

section \<open>Every kind of step\<close>

text \<open>Counting blocks touches \<open>block_cnt\<close> only.\<close>

definition same_but_blocks :: "trace_state \<Rightarrow> trace_state \<Rightarrow> bool" where
  "same_but_blocks s s' \<longleftrightarrow> (\<exists>m. s' = s\<lparr>tr_block_cnt := m\<rparr> \<and> length m = length (tr_block_cnt s))"

lemma hot_blocks_ok:
  assumes "i < length (tr_block_cnt s)"
  shows "\<exists>s'. run_hot_blocks i q r s = Inr s' \<and> same_but_blocks s s'"
proof -
  have one: "\<exists>s'. tb_exec_hot_blocks i q u t = Inr s' \<and> same_but_blocks s s'"
    if "same_but_blocks s t" for u t
    using that assms by (auto simp: tb_exec_hot_blocks_def ifs_def same_but_blocks_def)
      (metis length_list_update)
  have "\<exists>s'. block (map (\<lambda>(f, u). if f = Tb_Hot_Blocks then tb_exec_hot_blocks i q u else block []) xs) t
      = Inr s' \<and> same_but_blocks s s'" if "same_but_blocks s t" for xs t
    using that
  proof (induction xs arbitrary: t)
    case (Cons x xs)
    obtain f u where x: "x = (f, u)" by (cases x)
    show ?case
    proof (cases "f = Tb_Hot_Blocks")
      case True
      with one [OF Cons.prems, of u] Cons.IH show ?thesis by (auto simp: x block.simps)
    next
      case False
      with Cons show ?thesis by (simp add: x block.simps)
    qed
  qed (simp add: block.simps)
  moreover have "same_but_blocks s s" by (cases s) (auto simp: same_but_blocks_def)
  ultimately show ?thesis by (simp add: run_hot_blocks_def)
qed

lemma recorder_inv_blocks: "same_but_blocks s s' \<Longrightarrow> recorder_inv s \<Longrightarrow> recorder_inv s'"
  by (auto simp: same_but_blocks_def recorder_inv_def sized_def fifos_def vcpus_def)

lemma block_exec_step:
  assumes "recorder_inv s" "i < unat (tr_smp_vcpus s)" "tb_run_ok (mode, b)"
  shows "\<exists>s'. trace_step env (Block_Exec i mode b) s = Inr s' \<and> recorder_inv s'"
proof (cases "tr_registered s")
  case True
  obtain tb q runs where b: "b = (tb, q, runs)" by (cases b)
  then have "tb_ok tb" using assms(3) by (simp add: tb_run_ok_def)
  then obtain r where r: "vcpu_tb_trans_cb mode tb = Inr r" using trans_ok by blast
  have "i < length (tr_block_cnt s)" using assms by (simp add: recorder_inv_def sized_def)
  from hot_blocks_ok [OF this] obtain s1 where
    s1: "run_hot_blocks i q r s = Inr s1" "same_but_blocks s s1" by blast
  have inv: "recorder_inv s1" by (rule recorder_inv_blocks [OF s1(2) assms(1)])
  have i: "i < unat (tr_smp_vcpus s1)" "tr_recording s1"
    using s1(2) assms True by (auto simp: same_but_blocks_def recorder_inv_def)
  then have "thread_ok (tr_thread_data s1 ! i)" using inv by (simp add: recorder_inv_def)
  from block_ok [OF this \<open>tb_ok tb\<close> r] obtain t where
    "run_block (tr_roi_cr3 s1) (tr_magic s1) r q runs (tr_thread_data s1 ! i) = Inr t" "thread_ok t" by blast
  from recorder_inv_thread [where h = "run_block (tr_roi_cr3 s1) (tr_magic s1) r q runs", OF inv i this] True show ?thesis
    by (auto simp: trace_step_def b r exec_block_def s1 block.simps)
next
  case False
  then show ?thesis using assms(1) by (simp add: trace_step_def)
qed

lemma cpu_event_step:
  assumes "recorder_inv s" "i < unat (tr_smp_vcpus s)" "cpu_event ev"
  shows "\<exists>s'. trace_step env (Cpu_Event i ev) s = Inr s' \<and> recorder_inv s'"
proof (cases "tr_registered s")
  case True
  then have rec: "tr_recording s" using assms(1) by (simp add: recorder_inv_def)
  then have "thread_ok (tr_thread_data s ! i)" using assms by (simp add: recorder_inv_def)
  from cpu_event_ok [OF this assms(3)] obtain t where
    "thread_step (tr_roi_cr3 s) (tr_magic s) ev (tr_thread_data s ! i) = Inr t" "thread_ok t" by blast
  from recorder_inv_thread [where h = "thread_step (tr_roi_cr3 s) (tr_magic s) ev", OF assms(1,2) rec this] True show ?thesis by (auto simp: trace_step_def)
next
  case False
  then show ?thesis using assms(1) by (simp add: trace_step_def)
qed

lemma syscall_step:
  assumes "recorder_inv s"
  shows "\<exists>s'. trace_step env (Syscall num q) s = Inr s' \<and> recorder_inv s'"
proof (cases "tr_registered s")
  case True
  then have rec: "tr_recording s" using assms(1) by (simp add: recorder_inv_def)
  have "\<exists>s'. block (map (\<lambda>i. on_thread i (emit (\<lambda>_. FlushICache p))) [0..<m]) s = Inr s' \<and>
      recorder_inv s' \<and> tr_smp_vcpus s' = tr_smp_vcpus s \<and> tr_recording s'"
    if "m \<le> unat (tr_smp_vcpus s)" for m p
    using that
  proof (induction m)
    case (Suc m)
    then obtain s1 where s1: "block (map (\<lambda>i. on_thread i (emit (\<lambda>_. FlushICache p))) [0..<m]) s = Inr s1"
      "recorder_inv s1" "tr_smp_vcpus s1 = tr_smp_vcpus s" "tr_recording s1" by auto
    from emit_thread [OF s1(2) _ s1(4), of m "FlushICache p"] Suc.prems s1(3)
    obtain s2 where "on_thread m (emit (\<lambda>_. FlushICache p)) s1 = Inr s2" "recorder_inv s2"
      "tr_smp_vcpus s2 = tr_smp_vcpus s1" "tr_recording s2" by (auto simp: plain_call_def)
    with s1 show ?case by (simp add: block_append block.simps)
  qed (use assms rec in \<open>simp add: block.simps\<close>)
  from this [of "unat (tr_smp_vcpus s)" "q_page_directory q"] True assms show ?thesis
    by (auto simp: trace_step_def vcpu_syscall_cb_def ifs_def for_vcpus_def)
next
  case False
  then show ?thesis using assms(1) by (simp add: trace_step_def)
qed

text \<open>Commands and jobs.\<close>

lemma recorder_inv_fields:
  "recorder_inv (s\<lparr>tr_jobs := js\<rparr>) = recorder_inv s"
  "recorder_inv (s\<lparr>tr_current_mode := m\<rparr>) = recorder_inv s"
  "recorder_inv (s\<lparr>tr_roi_cr3 := r\<rparr>) = recorder_inv s"
  "recorder_inv (s\<lparr>tr_magic := mg\<rparr>) = recorder_inv s"
  "recorder_inv (s\<lparr>tr_output_dir_template := tpl\<rparr>) = recorder_inv s"
  by (simp_all add: recorder_inv_def sized_def fifos_def vcpus_def)

lemma started_inv:
  assumes "recorder_inv s" "\<not> tr_recording s"
  shows "recorder_inv (started env d s)"
  using assms
  by (auto simp: recorder_inv_def started_def sized_def vcpus_def fifos_def thread_ok_def br_inv_def
      idle_inv_def reset_thread_def new_writer_def)

lemma stopped_inv: "recorder_inv s \<Longrightarrow> recorder_inv (stopped s)"
  by (auto simp: recorder_inv_def stopped_def sized_def vcpus_def no_output_def)

lemma counters_inv:
  assumes "recorder_inv s"
  shows "recorder_inv (s\<lparr>tr_thread_data := map (\<lambda>i. reset_counters (tr_thread_data s ! i)) (vcpus s)\<rparr>)"
  using assms
  by (auto simp: recorder_inv_def sized_def vcpus_def fifos_def thread_ok_def br_inv_def
      idle_inv_def reset_counters_def)

lemma emit_step:
  assumes "recorder_inv s" "cpu < unat (tr_smp_vcpus s)" "plain_call c"
  shows "if tr_recording s then \<exists>s'. on_thread cpu (emit (\<lambda>_. c)) s = Inr s' \<and> recorder_inv s'
    else on_thread cpu (emit (\<lambda>_. c)) s = Inl Null_Deref"
  using emit_thread [OF assms(1,2) _ assms(3)] emit_thread_null [OF assms(1,2)] by auto

lemma mode_switch_step:
  assumes "recorder_inv s" "cpu < unat (tr_smp_vcpus s)"
  shows "if tr_recording s then \<exists>s' es. do_mode_switch m cpu s = Inr (s', es) \<and> recorder_inv s'
    else do_mode_switch m cpu s = Inl Null_Deref"
  using emit_step [OF assms, of "Magic SIM_CMD_INSTRUMENT_MODE (mode_option m) 0"]
  by (auto simp: do_mode_switch_def plain_call_def recorder_inv_fields)

lemma gmm_step:
  assumes "recorder_inv s" "cpu < unat (tr_smp_vcpus s)"
  shows "if gmm_ok s c then \<exists>s' es. recorder_gmm cpu c seg a s = Inr (s', es) \<and> recorder_inv s'
    else recorder_gmm cpu c seg a s = Inl Null_Deref"
proof (cases "tr_recording s")
  case True
  have "\<exists>s' es. quietly (on_thread cpu (emit (\<lambda>_. x))) s = Inr (s', es) \<and> recorder_inv s'"
    if "plain_call x" for x
    using emit_step [OF assms that] True by (auto simp: quietly_def)
  with True show ?thesis using assms(1)
    by (simp add: recorder_gmm_def gmm_ok_def plain_call_def split: if_split)
next
  case False
  have "quietly (on_thread cpu (emit (\<lambda>_. x))) s = Inl Null_Deref" for x
    using emit_thread_null [OF assms False, of "\<lambda>_. x"] by (simp add: quietly_def)
  with False show ?thesis using assms(1)
    by (simp add: recorder_gmm_def gmm_ok_def split: if_split)
qed

lemma mode_step:
  assumes "recorder_inv s" "cpu < unat (tr_smp_vcpus s)"
  shows "if m = ''detailed'' \<and> tr_recording s \<and> tr_current_mode s \<noteq> ModeDetailed \<and> \<not> all_open s
    then recorder_mode env cpu m s = Inl Assert_Fail
    else \<exists>s' es. recorder_mode env cpu m s = Inr (s', es) \<and> recorder_inv s'"
proof (cases "tr_recording s \<and> parse_mode m = Some ModeDetailed \<and> tr_current_mode s \<noteq> ModeDetailed")
  case True
  have "m = ''detailed''" using True by (auto simp: parse_mode_def split: if_splits)
  have "sized s" "\<forall>i < unat (tr_smp_vcpus s). td_output (tr_thread_data s ! i) \<noteq> None"
    using assms True by (auto simp: recorder_inv_def thread_ok_def br_inv_def)
  note eq = assert_open_eq [OF this]
  let ?s = "s\<lparr>tr_roi_cr3 := te_page_directory env\<rparr>"
  have "recorder_inv ?s" "cpu < unat (tr_smp_vcpus ?s)" "tr_recording ?s"
    using assms True by (simp_all add: recorder_inv_fields)
  then obtain s' es where "do_mode_switch ModeDetailed cpu ?s = Inr (s', es)" "recorder_inv s'"
    using mode_switch_step [of ?s cpu ModeDetailed] by auto
  then show ?thesis
    using True \<open>m = _\<close> by (auto simp: recorder_mode_def eq and_then_def)
next
  case False
  then show ?thesis using assms(1)
    by (auto simp: recorder_mode_def parse_mode_def recorder_inv_fields)
qed

lemma start_step:
  assumes "recorder_inv s"
  shows "if tr_recording s \<or> dir \<noteq> None \<or> te_mkdtemp env (refresh_template (tr_output_dir_template s)) \<noteq> None
    then \<exists>s' es. recorder_start env dir s = Inr (s', es) \<and> recorder_inv s'
    else recorder_start env dir s = Inl Assert_Fail"
proof (cases "tr_recording s")
  case True
  then show ?thesis using assms by (simp add: recorder_start_def)
next
  case False
  have "sized s" using assms by (simp add: recorder_inv_def)
  show ?thesis
  proof (cases "output_dir env dir s")
    case (Inl e)
    then show ?thesis using False
      by (auto simp: recorder_start_def output_dir_def split: option.splits)
  next
    case (Inr p)
    then obtain d s1 where "output_dir env dir s = Inr (d, s1)" by (cases p) auto
    moreover from this have "recorder_inv s1" "\<not> tr_recording s1"
      using assms False by (auto simp: output_dir_def recorder_inv_fields split: option.splits)
    ultimately show ?thesis
      using recorder_start_eq [OF \<open>sized s\<close> False] started_inv
      by (auto simp: output_dir_def split: option.splits)
  qed
qed

lemma stop_step:
  assumes "recorder_inv s" "cpu < unat (tr_smp_vcpus s)"
  shows "\<exists>s' es. recorder_stop cpu s = Inr (s', es) \<and> recorder_inv s'"
  using emit_step [OF assms, of End] assms(1)
  by (auto simp: recorder_stop_def plain_call_def recorder_inv_fields split: if_splits)

lemma command_step:
  assumes "recorder_inv s" "cpu < unat (tr_smp_vcpus s)"
  shows "if command_ok env dir args s
    then \<exists>s' es. trace_command env cpu dir args s = Inr (s', es) \<and> recorder_inv s'
    else \<exists>e. trace_command env cpu dir args s = Inl e"
proof -
  consider "args = [] \<or> hd args = ''start''" | "args \<noteq> []" "hd args = ''mode''"
    | "args \<noteq> []" "hd args = ''gmm''" | "args \<noteq> []" "hd args \<notin> {''start'', ''mode'', ''gmm''}" by auto
  then show ?thesis
  proof cases
    case 1
    then show ?thesis using start_step [OF assms(1), of dir env]
      by (auto simp: trace_command_def command_ok_def split: if_splits)
  next
    case 2
    then show ?thesis using mode_step [OF assms, of "args ! Suc 0" env] assms(1)
      by (auto simp: trace_command_def command_ok_def split: if_splits)
  next
    case 3
    then show ?thesis using gmm_step [OF assms, of "args ! Suc 0"] assms(1)
      by (auto simp: trace_command_def command_ok_def split: if_splits)
  next
    case 4
    then show ?thesis using stop_step [OF assms] assms(1)
      by (auto simp: trace_command_def command_ok_def recorder_reset_def magic_command_def recorder_inv_fields)
  qed
qed

lemma job_step:
  assumes "recorder_inv s" "cpu < unat (tr_smp_vcpus s)"
  shows "if (\<exists>m. job = Job_Mode m) \<and> \<not> tr_recording s then do_job env job cpu s = Inl Null_Deref
    else \<exists>s' es. do_job env job cpu s = Inr (s', es) \<and> recorder_inv s'"
proof -
  have "sized s" "0 < tr_smp_vcpus s" using assms(1) by (simp_all add: recorder_inv_def)
  then show ?thesis
    using mode_switch_step [OF assms] stopped_inv [OF assms(1)] counters_inv [OF assms(1)]
    by (cases job) (auto simp: do_job_def job_stop_eq quietly_def job_counters_eq)
qed

text \<open>A step that is not ruled out is taken and keeps the invariant; a step that is ruled out faults.\<close>

lemma recorder_step:
  assumes "recorder_inv s" "event_wf e s"
  shows "if step_ok env e s then \<exists>s'. trace_step env e s = Inr s' \<and> recorder_inv s'
    else \<exists>f. trace_step env e s = Inl f"
proof (cases e)
  case (Command cpu dir args)
  then show ?thesis
    using command_step [OF assms(1), of cpu env dir args] assms(2)
    by (auto simp: trace_step_def event_wf_def step_ok_def no_effects_def split: if_splits)
next
  case (Run_Job k cpu)
  let ?s = "s\<lparr>tr_jobs := remove_nth k (tr_jobs s)\<rparr>"
  have s: "recorder_inv ?s" "cpu < unat (tr_smp_vcpus ?s)" "tr_recording ?s = tr_recording s"
    using assms Run_Job by (simp_all add: recorder_inv_fields event_wf_def)
  show ?thesis
  proof (cases "k < length (tr_jobs s)")
    case True
    with job_step [OF s(1,2), of "tr_jobs s ! k" env] s(3) Run_Job show ?thesis
      by (cases "\<exists>m. tr_jobs s ! k = Job_Mode m \<and> \<not> tr_recording s")
         (auto simp: trace_step_def step_ok_def no_effects_def run_job_def)
  next
    case False
    with Run_Job assms(1) show ?thesis
      by (simp add: trace_step_def step_ok_def no_effects_def run_job_def)
  qed
next
  case (Block_Exec i mode b)
  then show ?thesis using block_exec_step [OF assms(1)] assms(2) by (auto simp: event_wf_def step_ok_def)
next
  case (Cpu_Event i ev)
  then show ?thesis using cpu_event_step [OF assms(1)] assms(2) by (auto simp: event_wf_def step_ok_def)
next
  case (Syscall num q)
  then show ?thesis using syscall_step [OF assms(1)] by (simp add: step_ok_def)
qed

end
