(* ===== verification/Trace_Runs.thy ===== *)
theory Trace_Runs
  imports Trace_Recorder
begin

text \<open>
  Runs of the recorder from its installation: the reachable states, the exact set of steps that
  fault, and what particular orders of commands and late jobs lead to.
\<close>

section \<open>Reachable states\<close>

inductive reachable :: "trace_env \<Rightarrow> trace_state \<Rightarrow> bool" for env where
  installed: "0 < n \<Longrightarrow> trace_install pid n trace_initial = Inr (s, es) \<Longrightarrow> reachable env s"
| stepped: "reachable env s \<Longrightarrow> event_wf e s \<Longrightarrow> trace_step env e s = Inr s' \<Longrightarrow> reachable env s'"

inductive_cases reachable_cases: "reachable env s"

lemma reachable_inv: "reachable env s \<Longrightarrow> recorder_inv s"
proof (induction rule: reachable.induct)
  case (installed n pid s es)
  then show ?case
    by (auto simp: trace_install_def trace_initial_def recorder_inv_def sized_def vec_resize_def
        thread_data_zero_def)
next
  case (stepped s e s')
  then show ?case using recorder_step [of s e env] by (auto split: if_splits)
qed

text \<open>C1: Exactly which steps of the recorder fault, in every reachable state: a segment command outside a
  recording, a mode switch that QEMU runs after the recording was stopped, \<open>mode detailed\<close>
  with a trace file that did not open, \<open>magic\<close> without its argument, and a start whose
  temporary directory cannot be made. All other commands, jobs, blocks and processor events,
  in any order, succeed.\<close>

theorem trace_recorder_faults:
  assumes "reachable env s" "event_wf e s"
  shows "(\<exists>f. trace_step env e s = Inl f) \<longleftrightarrow> \<not> step_ok env e s"
  using recorder_step [OF reachable_inv [OF assms(1)] assms(2), of env] by (auto split: if_splits)

text \<open>C2: The recorder is consistent in every reachable state: while it records, every processor has its
  writer, its idle flag says what the trace says, and the files to unlink are the fifos of one
  directory, two per processor; when it does not, no writer and no file is left, and no
  callback is registered.\<close>

theorem trace_recorder_consistent:
  assumes "reachable env s" "i < unat (tr_smp_vcpus s)"
  shows "tr_registered s = tr_recording s \<and>
    (if tr_recording s
     then (\<exists>w. td_output (tr_thread_data s ! i) = Some w \<and>
             idle_track True (w_calls w) = Some (td_idle (tr_thread_data s ! i))) \<and>
          (\<exists>d. tr_trace_files s = fifos d s)
     else td_output (tr_thread_data s ! i) = None \<and> tr_trace_files s = [])"
  using reachable_inv [OF assms(1)] assms(2)
  by (auto simp: recorder_inv_def thread_ok_def br_inv_def idle_inv_def)

text \<open>A recorder on two processors, for concrete runs.\<close>

definition demo_env :: trace_env where
  "demo_env = \<lparr>te_mkdtemp = (\<lambda>t. Some t), te_open = (\<lambda>_ _. True), te_page_directory = 0x5000,
     te_iteration = (\<lambda>m. m)\<rparr>"

definition demo_installed :: trace_state where
  "demo_installed = trace_initial\<lparr>tr_smp_vcpus := 2, tr_thread_data := [thread_data_zero, thread_data_zero],
     tr_block_cnt := [[], []]\<rparr>"

lemma replicate_2: "replicate 2 x = [x, x]"
  by (simp add: numeral_2_eq_2)

lemma demo_installed_reachable: "reachable env demo_installed"
proof (rule reachable.installed)
  show "trace_install 0 2 trace_initial = Inr (demo_installed, [print_info (''trace installed with id '' @ show_u 0)])"
    by (simp add: trace_install_def demo_installed_def trace_initial_def vec_resize_def replicate_2)
qed simp

theorem trace_recorder_faults_witness:
  "\<exists>f. trace_step demo_env (Command 0 None [''gmm'', ''create'', ''0x10'', ''0x20'']) demo_installed = Inl f"
proof -
  have "event_wf (Command 0 None [''gmm'', ''create'', ''0x10'', ''0x20'']) demo_installed"
    by (simp add: event_wf_def demo_installed_def)
  from trace_recorder_faults [OF demo_installed_reachable this, of demo_env]
  show ?thesis by (simp add: step_ok_def command_ok_def gmm_ok_def demo_installed_def trace_initial_def)
qed

definition demo_recording :: trace_state where
  "demo_recording = started demo_env ''/tmp/t'' demo_installed"

lemma demo_start:
  "trace_step demo_env (Command 0 (Some ''/tmp/t'') [''start'']) demo_installed = Inr demo_recording"
proof -
  have "sized demo_installed" "\<not> tr_recording demo_installed"
    by (simp_all add: sized_def demo_installed_def trace_initial_def)
  from recorder_start_eq [OF this, of demo_env "Some ''/tmp/t''"] show ?thesis
    by (simp add: trace_step_def trace_command_def no_effects_def output_dir_def demo_recording_def)
qed

lemma demo_recording_reachable: "reachable demo_env demo_recording"
  by (rule reachable.stepped [OF demo_installed_reachable _ demo_start])
     (simp add: event_wf_def demo_installed_def)

lemma demo_recording_facts:
  "tr_recording demo_recording" "tr_jobs demo_recording = []" "tr_current_mode demo_recording = ModeIcount"
  "tr_smp_vcpus demo_recording = 2" "all_open demo_recording"
  by (simp_all add: demo_recording_def started_def demo_installed_def trace_initial_def all_open_def
      vcpus_def new_writer_def demo_env_def)

theorem trace_recorder_consistent_witness:
  "trace_step demo_env (Command 0 (Some ''/tmp/t'') [''start'']) demo_installed = Inr demo_recording \<and>
     (\<exists>w. td_output (tr_thread_data demo_recording ! 1) = Some w)"
  using trace_recorder_consistent [OF demo_recording_reachable, of 1] demo_start
  by (auto simp: demo_recording_facts)

section \<open>Orders of commands\<close>

text \<open>C19: A mode switch can be undone by an older one: \<open>cacheonly\<close> only takes effect when QEMU has flushed
  its blocks, \<open>detailed\<close> at once; asked for in this order before the flush, the recorder ends in
  the cache-only mode.\<close>

theorem trace_mode_order:
  assumes "reachable env s" "tr_recording s" "tr_jobs s = []" "tr_current_mode s = ModeIcount"
    "all_open s" "cpu < unat (tr_smp_vcpus s)"
  shows "\<exists>s1 s2. run (trace_step env) [Command cpu None [''mode'', ''cacheonly''],
      Command cpu None [''mode'', ''detailed'']] s = Inr s1 \<and> tr_current_mode s1 = ModeDetailed \<and>
    trace_step env (Run_Job 0 cpu) s1 = Inr s2 \<and> tr_current_mode s2 = ModeMemory"
proof -
  let ?roi = "te_page_directory env"
  define a where "a = s\<lparr>tr_roi_cr3 := ?roi, tr_jobs := [Job_Mode ModeMemory]\<rparr>"
  have a: "recorder_inv a" "tr_recording a" "cpu < unat (tr_smp_vcpus a)" "a\<lparr>tr_roi_cr3 := ?roi\<rparr> = a"
    "tr_current_mode a = ModeIcount" "tr_jobs a = [Job_Mode ModeMemory]" "tr_smp_vcpus a = tr_smp_vcpus s"
    "all_open a"
    using reachable_inv [OF assms(1)] assms by (simp_all add: a_def recorder_inv_fields all_open_def)
  have "sized a" "\<forall>i < unat (tr_smp_vcpus a). td_output (tr_thread_data a ! i) \<noteq> None"
    using a by (auto simp: recorder_inv_def thread_ok_def br_inv_def)
  from assert_open_eq [OF this] a(8) have open_ok: "for_vcpus assert_open a = Inr a" by simp
  have one: "recorder_mode env cpu ''cacheonly'' s = Inr (a, [Vcpu_Tb_Flush])"
    using assms(2,3,4) by (simp add: recorder_mode_def parse_mode_def a_def)
  from emit_thread [OF a(1,3,2), of "Magic SIM_CMD_INSTRUMENT_MODE SIM_OPT_INSTRUMENT_DETAILED 0"]
  obtain b where b: "on_thread cpu (emit (\<lambda>_. Magic SIM_CMD_INSTRUMENT_MODE SIM_OPT_INSTRUMENT_DETAILED 0)) a
      = Inr b" "recorder_inv b" "tr_smp_vcpus b = tr_smp_vcpus s" "tr_recording b"
      "tr_jobs b = [Job_Mode ModeMemory]" using a(6,7) by (auto simp: plain_call_def)
  let ?b = "b\<lparr>tr_current_mode := ModeDetailed\<rparr>"
  have two: "no_effects (recorder_mode env cpu ''detailed'' a) = Inr ?b"
    using a(2,4,5) open_ok b(1)
    by (simp add: recorder_mode_def parse_mode_def no_effects_def and_then_def do_mode_switch_def mode_option_def)
  let ?c = "?b\<lparr>tr_jobs := []\<rparr>"
  have "recorder_inv ?c" "cpu < unat (tr_smp_vcpus ?c)" "tr_recording ?c"
    using b assms(6) by (simp_all add: recorder_inv_fields)
  from emit_thread [OF this, of "Magic SIM_CMD_INSTRUMENT_MODE SIM_OPT_INSTRUMENT_WARMUP 0"]
  obtain d where "on_thread cpu (emit (\<lambda>_. Magic SIM_CMD_INSTRUMENT_MODE SIM_OPT_INSTRUMENT_WARMUP 0)) ?c = Inr d"
    by (auto simp: plain_call_def)
  then have three: "run_job env 0 cpu ?b = Inr (d\<lparr>tr_current_mode := ModeMemory\<rparr>, [Set_Slomo_Rate 1])"
    using b(5) by (simp add: run_job_def do_job_def do_mode_switch_def mode_option_def remove_nth_def)
  show ?thesis using one two three
    by (simp add: trace_step_def trace_command_def no_effects_def)
qed

theorem trace_mode_order_witness:
  "\<exists>s1 s2. run (trace_step demo_env) [Command 0 None [''mode'', ''cacheonly''],
      Command 0 None [''mode'', ''detailed'']] demo_recording = Inr s1 \<and> tr_current_mode s1 = ModeDetailed \<and>
    trace_step demo_env (Run_Job 0 0) s1 = Inr s2 \<and> tr_current_mode s2 = ModeMemory"
  by (rule trace_mode_order [OF demo_recording_reachable]) (simp_all add: demo_recording_facts)

section \<open>Blocks and mode switches of the recorder\<close>

definition same_control :: "trace_state \<Rightarrow> trace_state \<Rightarrow> bool" where
  "same_control s s' \<longleftrightarrow> tr_recording s' = tr_recording s \<and> tr_registered s' = tr_registered s \<and>
     tr_smp_vcpus s' = tr_smp_vcpus s \<and> tr_jobs s' = tr_jobs s \<and> tr_current_mode s' = tr_current_mode s \<and>
     tr_roi_cr3 s' = tr_roi_cr3 s \<and> tr_magic s' = tr_magic s"

text \<open>A block that the recorder executes is a block of its processor.\<close>

lemma block_exec_thread:
  assumes "recorder_inv s" "tr_recording s" "i < unat (tr_smp_vcpus s)" "tb_run_ok (mode, b)"
  shows "\<exists>s'. trace_step env (Block_Exec i mode b) s = Inr s' \<and> recorder_inv s' \<and> same_control s s' \<and>
    tb_step (tr_roi_cr3 s) (tr_magic s) (mode, b) (tr_thread_data s ! i) = Inr (tr_thread_data s' ! i)"
proof -
  obtain tb q runs where b: "b = (tb, q, runs)" by (cases b)
  have reg: "tr_registered s" and i: "i < length (tr_block_cnt s)"
    using assms by (simp_all add: recorder_inv_def sized_def)
  from block_exec_step [OF assms(1,3,4)] obtain s' where s': "trace_step env (Block_Exec i mode b) s = Inr s'"
    "recorder_inv s'" by blast
  from s'(1) reg obtain r where r: "vcpu_tb_trans_cb mode tb = Inr r" "exec_block i r q runs s = Inr s'"
    by (auto simp: trace_step_def b bind_res_eq_Inr)
  from hot_blocks_ok [OF i] obtain m where "run_hot_blocks i q r s = Inr (s\<lparr>tr_block_cnt := m\<rparr>)"
    by (auto simp: same_but_blocks_def)
  with r(2) obtain t where "run_block (tr_roi_cr3 s) (tr_magic s) r q runs (tr_thread_data s ! i) = Inr t"
    "s' = s\<lparr>tr_block_cnt := m, tr_thread_data := (tr_thread_data s)[i := t]\<rparr>" "i < length (tr_thread_data s)"
    by (auto simp: exec_block_def block.simps bind_res_eq_Inr on_thread_Inr)
  with s' r(1) show ?thesis
    by (auto simp: tb_step_def b same_control_def)
qed

lemma block_execs_thread:
  assumes "recorder_inv s" "tr_recording s" "i < unat (tr_smp_vcpus s)" "\<forall>b \<in> set bs. tb_run_ok (mode, b)"
  shows "\<exists>s'. run (trace_step env) (map (Block_Exec i mode) bs) s = Inr s' \<and> recorder_inv s' \<and> same_control s s' \<and>
    run (tb_step (tr_roi_cr3 s) (tr_magic s)) (map (Pair mode) bs) (tr_thread_data s ! i) = Inr (tr_thread_data s' ! i)"
  using assms
proof (induction bs arbitrary: s)
  case (Cons b bs)
  then obtain s1 where 1: "trace_step env (Block_Exec i mode b) s = Inr s1" "recorder_inv s1" "same_control s s1"
    "tb_step (tr_roi_cr3 s) (tr_magic s) (mode, b) (tr_thread_data s ! i) = Inr (tr_thread_data s1 ! i)"
    using block_exec_thread by (metis list.set_intros(1))
  note f = 1(3) [unfolded same_control_def]
  from Cons.IH [OF 1(2)] Cons.prems f obtain s2 where
    "run (trace_step env) (map (Block_Exec i mode) bs) s1 = Inr s2" "recorder_inv s2" "same_control s1 s2"
    "run (tb_step (tr_roi_cr3 s) (tr_magic s)) (map (Pair mode) bs) (tr_thread_data s1 ! i) = Inr (tr_thread_data s2 ! i)"
    by auto
  with 1 f show ?case by (auto simp: same_control_def)
qed (simp add: same_control_def)

text \<open>A mode switch that QEMU runs before anything else happens leaves every count as it is.\<close>

lemma count_view_emit:
  "emit (\<lambda>_. Magic a b c) t = Inr t' \<Longrightarrow> count_view t' = count_view t"
  by (auto simp: emit_def count_view_def calls_of_def split: option.splits)

lemma mode_switch_counts:
  assumes "recorder_inv s" "tr_recording s" "tr_jobs s = []" "parse_mode m = Some mode" "mode \<noteq> ModeDetailed"
    "tr_current_mode s \<noteq> mode" "cpu < unat (tr_smp_vcpus s)" "j < unat (tr_smp_vcpus s)"
  shows "\<exists>s'. run (trace_step env) [Command cpu None [''mode'', m], Run_Job 0 j] s = Inr s' \<and>
    recorder_inv s' \<and> tr_recording s' \<and> tr_jobs s' = [] \<and> tr_current_mode s' = mode \<and>
    tr_smp_vcpus s' = tr_smp_vcpus s \<and>
    (\<forall>i < unat (tr_smp_vcpus s). count_view (tr_thread_data s' ! i) = count_view (tr_thread_data s ! i))"
proof -
  let ?a = "s\<lparr>tr_roi_cr3 := te_page_directory env, tr_jobs := [Job_Mode mode]\<rparr>"
  let ?b = "?a\<lparr>tr_jobs := []\<rparr>"
  let ?c = "Magic SIM_CMD_INSTRUMENT_MODE (mode_option mode) 0"
  have one: "recorder_mode env cpu m s = Inr (?a, [Vcpu_Tb_Flush])"
    using assms by (simp add: recorder_mode_def)
  have "recorder_inv ?b" "j < unat (tr_smp_vcpus ?b)" "tr_recording ?b"
    using assms by (simp_all add: recorder_inv_fields)
  from emit_thread [OF this, of ?c] obtain d where
    d: "on_thread j (emit (\<lambda>_. ?c)) ?b = Inr d" "recorder_inv d" "tr_smp_vcpus d = tr_smp_vcpus s"
      "tr_recording d" "tr_jobs d = []" by (auto simp: plain_call_def)
  have v: "count_view (tr_thread_data d ! i) = count_view (tr_thread_data s ! i)"
    if "i < unat (tr_smp_vcpus s)" for i
    using d(1) by (cases "i = j") (auto simp: on_thread_Inr nth_list_update dest: count_view_emit)
  have "run_job env 0 j ?a = Inr (d\<lparr>tr_current_mode := mode\<rparr>, [Set_Slomo_Rate 1])"
    using d(1) assms(5) by (simp add: run_job_def do_job_def do_mode_switch_def remove_nth_def)
  with one d v show ?thesis
    by (simp add: trace_step_def trace_command_def no_effects_def recorder_inv_fields)
qed


text \<open>C21: Across a mode switch instructions are reported twice: \<open>icount_reported\<close> also grows in the
  cache-only mode, where the instructions are reported by \<open>CacheOnly\<close>, and the switch to the
  fast-forward mode does not clear it. When a processor that has recorded nothing yet is switched to the
  cache-only mode, executes blocks with at most 100000 instructions, is switched to
  the fast-forward mode and executes more blocks, then the \<open>CacheOnly\<close> calls and the pending
  count account for the instructions of the first part, and the \<open>InstructionCount\<close> calls and
  the count still to report account for those of the second part and, once more, for all that
  the \<open>CacheOnly\<close> calls have reported.\<close>

theorem trace_mode_switch_counts_twice:
  assumes "reachable env s" "tr_recording s" "tr_jobs s = []" "tr_current_mode s = ModeIcount"
    "i < unat (tr_smp_vcpus s)" "fresh_thread (tr_thread_data s ! i)"
    "cpu < unat (tr_smp_vcpus s)" "j < unat (tr_smp_vcpus s)"
    "\<forall>b \<in> set bs. tb_run_ok (ModeMemory, b)" "\<forall>b \<in> set cs. tb_run_ok (ModeIcount, b)"
    "sum_list (map (\<lambda>(tb, q, runs). length runs) bs) \<le> 100000"
  shows "\<exists>s'. run (trace_step env)
      ([Command cpu None [''mode'', ''cacheonly''], Run_Job 0 j] @ map (Block_Exec i ModeMemory) bs @
       [Command cpu None [''mode'', ''fastforward''], Run_Job 0 j] @ map (Block_Exec i ModeIcount) cs) s = Inr s' \<and>
    tr_current_mode s' = ModeIcount \<and>
    cacheonly_total (calls_of (tr_thread_data s' ! i)) + td_icount_cacheonly_pending (tr_thread_data s' ! i) =
      of_nat (sum_list (map (\<lambda>(tb, q, runs). length runs) bs)) \<and>
    icount_total (calls_of (tr_thread_data s' ! i)) + td_icount_reported (tr_thread_data s' ! i) =
      of_nat (sum_list (map (\<lambda>(tb, q, runs). length (tb_insns tb)) cs)) +
      cacheonly_total (calls_of (tr_thread_data s' ! i))"
proof -
  let ?n = "sum_list (map (\<lambda>(tb, q, runs). length runs) bs)"
  have n: "sum_list (map started_insns (map (Pair ModeMemory) bs)) = ?n"
    by (simp add: comp_def started_insns_def case_prod_unfold)
  have m: "sum_list (map insns_of (map (Pair ModeIcount) cs)) = of_nat (sum_list (map (\<lambda>(tb, q, runs). length (tb_insns tb)) cs))"
    by (induction cs) (simp_all add: insns_of_def case_prod_unfold)
  from mode_switch_counts [OF reachable_inv [OF assms(1)] assms(2,3), of "''cacheonly''" ModeMemory cpu j env] assms(4,7,8)
  obtain s1 where s1: "run (trace_step env) [Command cpu None [''mode'', ''cacheonly''], Run_Job 0 j] s = Inr s1"
    "recorder_inv s1" "tr_recording s1" "tr_jobs s1 = []" "tr_current_mode s1 = ModeMemory"
    "tr_smp_vcpus s1 = tr_smp_vcpus s" "count_view (tr_thread_data s1 ! i) = count_view (tr_thread_data s ! i)"
    using assms(5) by (auto simp: parse_mode_def)
  have r1: "cacheonly_reported 0 (tr_thread_data s1 ! i)"
    using cacheonly_reported_view [OF s1(7), of 0] assms(6) by (simp add: fresh_thread_def cacheonly_reported_def)
  from block_execs_thread [OF s1(2,3), of i bs ModeMemory env] assms(5,9) s1(6) obtain s2 where
    s2: "run (trace_step env) (map (Block_Exec i ModeMemory) bs) s1 = Inr s2" "recorder_inv s2" "same_control s1 s2"
    "run (tb_step (tr_roi_cr3 s1) (tr_magic s1)) (map (Pair ModeMemory) bs) (tr_thread_data s1 ! i) = Inr (tr_thread_data s2 ! i)"
    by auto
  have r2: "cacheonly_reported ?n (tr_thread_data s2 ! i)"
    using cacheonly_reported_blocks [OF s2(4) _ r1] assms(9,11) n by (simp add: only_def)
  note f2 = s2(3) [unfolded same_control_def]
  from mode_switch_counts [OF s2(2), of "''fastforward''" ModeIcount cpu j env] f2 s1 assms(5,7,8)
  obtain s3 where s3: "run (trace_step env) [Command cpu None [''mode'', ''fastforward''], Run_Job 0 j] s2 = Inr s3"
    "recorder_inv s3" "tr_recording s3" "tr_current_mode s3 = ModeIcount"
    "tr_smp_vcpus s3 = tr_smp_vcpus s" "count_view (tr_thread_data s3 ! i) = count_view (tr_thread_data s2 ! i)"
    by (auto simp: parse_mode_def)
  have r3: "cacheonly_reported ?n (tr_thread_data s3 ! i)"
    using cacheonly_reported_view [OF s3(6)] r2 by simp
  from block_execs_thread [OF s3(2,3), of i cs ModeIcount env] assms(5,10) s3(5) obtain s4 where
    s4: "run (trace_step env) (map (Block_Exec i ModeIcount) cs) s3 = Inr s4" "same_control s3 s4"
    "run (tb_step (tr_roi_cr3 s3) (tr_magic s3)) (map (Pair ModeIcount) cs) (tr_thread_data s3 ! i) = Inr (tr_thread_data s4 ! i)"
    by auto
  have r4: "reported_total (tr_thread_data s4 ! i) = reported_total (tr_thread_data s3 ! i) +
      of_nat (sum_list (map (\<lambda>(tb, q, runs). length (tb_insns tb)) cs))"
    "cacheonly_total (calls_of (tr_thread_data s4 ! i)) = cacheonly_total (calls_of (tr_thread_data s3 ! i))"
    "td_icount_cacheonly_pending (tr_thread_data s4 ! i) = td_icount_cacheonly_pending (tr_thread_data s3 ! i)"
    using icount_blocks_report [OF s4(3)] assms(10) m by (simp_all add: only_def)
  let ?t = "tr_thread_data s4 ! i"
  have pending: "cacheonly_total (calls_of ?t) + td_icount_cacheonly_pending ?t = of_nat ?n"
    unfolding r4(2,3) by (rule cacheonly_reported_totals(1) [OF r3])
  have "reported_total (tr_thread_data s3 ! i) = cacheonly_total (calls_of ?t)"
    unfolding r4(2) by (rule cacheonly_reported_totals(2) [OF r3])
  then have reported: "icount_total (calls_of ?t) + td_icount_reported ?t =
      of_nat (sum_list (map (\<lambda>(tb, q, runs). length (tb_insns tb)) cs)) + cacheonly_total (calls_of ?t)"
    using r4(1) by (simp only: reported_total_def add.commute)
  have mode: "tr_current_mode s4 = ModeIcount" using s4(2) s3(4) by (simp add: same_control_def)
  have "run (trace_step env)
      ([Command cpu None [''mode'', ''cacheonly''], Run_Job 0 j] @ map (Block_Exec i ModeMemory) bs @
       [Command cpu None [''mode'', ''fastforward''], Run_Job 0 j] @ map (Block_Exec i ModeIcount) cs) s = Inr s4"
    by (simp only: run_append s1(1) s2(1) s3(1) s4(1) bind_res_Inr)
  with pending reported mode show ?thesis by blast
qed

text \<open>Three instructions run in all, and the trace accounts for four.\<close>

lemma demo_switched:
  "\<exists>s'. run (trace_step demo_env)
      ([Command 0 None [''mode'', ''cacheonly''], Run_Job 0 1] @
       map (Block_Exec 0 ModeMemory) [(demo_tb 0x1000, demo_q, [(demo_q, [])]), (demo_tb 0x2000, demo_q, [(demo_q, [])])] @
       [Command 0 None [''mode'', ''fastforward''], Run_Job 0 1] @
       map (Block_Exec 0 ModeIcount) [(demo_tb 0x3000, demo_q, [(demo_q, [])])]) demo_recording = Inr s' \<and>
    cacheonly_total (calls_of (tr_thread_data s' ! 0)) = 1"
  by (simp add: trace_step_def demo_recording_def started_def demo_installed_def trace_command_def no_effects_def
      recorder_mode_def parse_mode_def run_job_def do_job_def do_mode_switch_def remove_nth_def emit_def
      trace_initial_def vcpus_def new_writer_def demo_env_def reset_thread_def on_thread_def
      exec_block_def run_hot_blocks_def tb_exec_hot_blocks_def demo_run in_roi_def upt_rec calls_of_def
      trans_icount tb_exec_count_insns_def over_ff_def FlowControlFF_def)

theorem trace_mode_switch_counts_twice_witness:
  "\<exists>s'. run (trace_step demo_env)
      ([Command 0 None [''mode'', ''cacheonly''], Run_Job 0 1] @
       map (Block_Exec 0 ModeMemory) [(demo_tb 0x1000, demo_q, [(demo_q, [])]), (demo_tb 0x2000, demo_q, [(demo_q, [])])] @
       [Command 0 None [''mode'', ''fastforward''], Run_Job 0 1] @
       map (Block_Exec 0 ModeIcount) [(demo_tb 0x3000, demo_q, [(demo_q, [])])]) demo_recording = Inr s' \<and>
    cacheonly_total (calls_of (tr_thread_data s' ! 0)) + td_icount_cacheonly_pending (tr_thread_data s' ! 0) = 2 \<and>
    icount_total (calls_of (tr_thread_data s' ! 0)) + td_icount_reported (tr_thread_data s' ! 0) = 2"
proof -
  have ok: "\<forall>b \<in> set [(demo_tb 0x1000, demo_q, [(demo_q, [])]), (demo_tb 0x2000, demo_q, [(demo_q, [])])].
      tb_run_ok (ModeMemory, b)" "\<forall>b \<in> set [(demo_tb 0x3000, demo_q, [(demo_q, [])])]. tb_run_ok (ModeIcount, b)"
    by (simp_all add: tb_run_ok_def demo_tb_ok) (simp_all add: demo_tb_def)
  have fresh: "fresh_thread (tr_thread_data demo_recording ! 0)"
    by (simp add: demo_recording_def started_def demo_installed_def trace_initial_def vcpus_def new_writer_def
        reset_thread_def fresh_thread_def calls_of_def upt_rec)
  show ?thesis
    using trace_mode_switch_counts_twice [OF demo_recording_reachable _ _ _ _ fresh _ _ ok, of 0 1]
      demo_switched
    by (auto simp: demo_recording_facts simp del: run_Cons) (auto simp: demo_tb_def simp del: run_Cons)
qed


section \<open>A whole recording\<close>

definition made :: "effect list \<Rightarrow> string list" where
  "made es = concat (map (\<lambda>e. case e of Mkfifo f \<Rightarrow> [f] | _ \<Rightarrow> []) es)"

definition removed :: "effect list \<Rightarrow> string list" where
  "removed es = concat (map (\<lambda>e. case e of Unlink f \<Rightarrow> [f] | _ \<Rightarrow> []) es)"

lemma made_removed_simps [simp]:
  "made [] = []" "made (es @ fs) = made es @ made fs"
  "made (e # es) = (case e of Mkfifo f \<Rightarrow> [f] | _ \<Rightarrow> []) @ made es"
  "removed [] = []" "removed (es @ fs) = removed es @ removed fs"
  "removed (e # es) = (case e of Unlink f \<Rightarrow> [f] | _ \<Rightarrow> []) @ removed es"
  by (simp_all add: made_def removed_def)

lemma made_start: "made (start_effects env d s) = fifos d s"
proof -
  have "made (concat (map (\<lambda>i. [Mkfifo (vcpu_file d i), Mkfifo (response_file d i)]) is)) =
      concat (map (\<lambda>i. [vcpu_file d i, response_file d i]) is)" for "is"
    by (induction "is") simp_all
  moreover have "made (concat (map (open_errors env d) is)) = []" for "is"
    by (induction "is") (simp_all add: open_errors_def print_vcpu_error_def)
  ultimately show ?thesis by (simp add: start_effects_def fifos_def print_info_def)
qed

lemma removed_stop: "removed (stop_effects env s) = tr_trace_files s"
proof -
  have "removed (map Unlink fs) = fs" for fs by (induction fs) simp_all
  moreover have "removed (concat (map (\<lambda>i. if b then [print_vcpu_info i (g i)] else []) is)) = []" for b g "is"
    by (induction "is") (simp_all add: print_vcpu_info_def)
  ultimately show ?thesis by (simp add: stop_effects_def print_info_def print_vcpu_info_def)
qed

text \<open>C10: A recording cleans up after itself: \<open>start\<close> makes two fifos per processor and a writer on each
  pair, and the callback that \<open>stop\<close> queues closes every writer, after an \<open>End\<close> on the
  stopping processor's and an \<open>Abort\<close> on all, and removes exactly the files that \<open>start\<close>
  made, in the same order.\<close>

theorem trace_start_stop:
  assumes "reachable env s" "\<not> tr_recording s" "tr_jobs s = []" "cpu < unat (tr_smp_vcpus s)"
  shows "\<exists>s1 es s2 s3 fs. recorder_start env (Some d) s = Inr (s1, es) \<and>
    recorder_stop cpu s1 = Inr (s2, [Plugin_Reset]) \<and> run_job env 0 cpu' s2 = Inr (s3, fs) \<and>
    made es = fifos d s \<and> removed fs = made es \<and> \<not> tr_recording s3 \<and> tr_trace_files s3 = [] \<and>
    tr_closed s3 = tr_closed s @ map (\<lambda>i. (i, (new_writer env d i)
      \<lparr>w_calls := (if i = cpu then [End, Abort] else [Abort])\<rparr>)) (vcpus s)"
proof -
  have inv: "recorder_inv s" using reachable_inv [OF assms(1)] .
  then have "sized s" "tr_trace_files s = []" using assms(2) by (simp_all add: recorder_inv_def)
  let ?s1 = "started env d s"
  have 1: "recorder_start env (Some d) s = Inr (?s1, start_effects env d s)"
    using recorder_start_eq [OF \<open>sized s\<close> assms(2)] by (simp add: output_dir_def)
  define t where "t i = (reset_thread i (tr_thread_data s ! i))\<lparr>td_output := Some (new_writer env d i)\<rparr>" for i
  define t' where "t' = (t cpu)\<lparr>td_output := Some ((new_writer env d cpu)\<lparr>w_calls := [End]\<rparr>)\<rparr>"
  let ?s2 = "?s1\<lparr>tr_thread_data := (tr_thread_data ?s1)[cpu := t'], tr_jobs := [Job_Stop]\<rparr>"
  have 2: "recorder_stop cpu ?s1 = Inr (?s2, [Plugin_Reset])"
    using assms(3,4) by (simp add: recorder_stop_def started_def on_thread_def vcpus_def emit_def t_def t'_def
        new_writer_def)
  let ?s3 = "?s2\<lparr>tr_jobs := []\<rparr>"
  have "sized ?s3" "0 < tr_smp_vcpus ?s3"
    using inv by (simp_all add: sized_def started_def vcpus_def recorder_inv_def)
  from job_stop_eq [OF this, of env] have 3: "run_job env 0 cpu' ?s2 = Inr (stopped ?s3, stop_effects env ?s3)"
    by (simp add: run_job_def do_job_def remove_nth_def)
  have "concat (map (\<lambda>i. writer_left i (tr_thread_data ?s3 ! i)) (vcpus s)) =
      concat (map (\<lambda>i. [(i, (new_writer env d i)\<lparr>w_calls := (if i = cpu then [End, Abort] else [Abort])\<rparr>)]) (vcpus s))"
    using assms(4)
    by (intro arg_cong [where f = concat] map_cong)
       (auto simp: started_def vcpus_def nth_list_update writer_left_def t'_def t_def new_writer_def)
  then have closed: "tr_closed (stopped ?s3) = tr_closed s @ map (\<lambda>i. (i, (new_writer env d i)
      \<lparr>w_calls := (if i = cpu then [End, Abort] else [Abort])\<rparr>)) (vcpus s)"
    by (simp add: stopped_def concat_map_singleton) (simp add: started_def vcpus_def)
  have "removed (stop_effects env ?s3) = fifos d s"
    using \<open>tr_trace_files s = []\<close> by (simp add: removed_stop) (simp add: started_def fifos_def)
  with 1 2 3 closed made_start [of env d s] show ?thesis by (simp add: stopped_def)
qed

theorem trace_start_stop_witness:
  "\<exists>s1 es s2 s3 fs. recorder_start demo_env (Some ''/t'') demo_installed = Inr (s1, es) \<and>
    recorder_stop 1 s1 = Inr (s2, [Plugin_Reset]) \<and> run_job demo_env 0 1 s2 = Inr (s3, fs) \<and>
    removed fs = [''/t/vcpu0.sift'', ''/t/response.vcpu0.sift'', ''/t/vcpu1.sift'', ''/t/response.vcpu1.sift'']"
proof -
  have "show_u 0 = ''0''" "show_u 1 = ''1''" by code_simp+
  then have "fifos ''/t'' demo_installed =
      [''/t/vcpu0.sift'', ''/t/response.vcpu0.sift'', ''/t/vcpu1.sift'', ''/t/response.vcpu1.sift'']"
    by (simp add: fifos_def vcpus_def demo_installed_def upt_rec vcpu_file_def response_file_def)
  moreover have "\<not> tr_recording demo_installed" "tr_jobs demo_installed = []"
    "(1 :: nat) < unat (tr_smp_vcpus demo_installed)"
    by (simp_all add: demo_installed_def trace_initial_def)
  ultimately show ?thesis
    using trace_start_stop [OF demo_installed_reachable, of 1 demo_env "''/t''" 1] by auto
qed

section \<open>The counter reset\<close>

definition pc_event :: "u64 \<times> qemu_view \<Rightarrow> thread_event" where
  "pc_event = (\<lambda>(u, q). Exec Insn_Update_Pc u q)"

lemma no_sync_below_target:
  "run (thread_step roi mg) (map pc_event us) t = Inr t' \<Longrightarrow>
     unat (td_icount_detailed t) + length us \<le> unat (td_flowcontrol_target t) \<Longrightarrow> syncs t' = syncs t"
proof (induction us arbitrary: t)
  case (Cons x us)
  obtain u q where x: "x = (u, q)" by (cases x)
  have "unat (td_flowcontrol_target t) < 2 ^ 64" using unsigned_less [of "td_flowcontrol_target t"] by simp
  then have inc: "unat (td_icount_detailed t + 1) = unat (td_icount_detailed t) + 1"
    using Cons.prems(2) unat_plus_small [of "td_icount_detailed t" 1] by simp
  from Cons.prems(1) obtain t1 where 1: "insn_exec_update_pc roi q u t = Inr t1"
    and 2: "run (thread_step roi mg) (map pc_event us) t1 = Inr t'"
    by (auto simp: x pc_event_def bind_res_eq_Inr)
  have "wlp (insn_exec_update_pc roi q u) (\<lambda>t1. syncs t1 = syncs t \<and>
      td_flowcontrol_target t1 = td_flowcontrol_target t \<and>
      unat (td_icount_detailed t1) \<le> unat (td_icount_detailed t) + 1) t"
    using Cons.prems(2) inc
    by (auto simp: insn_exec_update_pc_def wp_simps syncs_def calls_of_def word_less_nat_alt)
  from wlpD [OF this 1] Cons.IH [OF 2] Cons.prems(2) show ?case by simp
qed simp

text \<open>C20: A counter reset switches the flow control off for a while: \<open>reset\<close> clears
  \<open>icount_detailed\<close> but not \<open>flowcontrol_target\<close>, so afterwards as many instructions as the
  processor had reached before run without a single \<open>Sync\<close>, where at most 1000 should.\<close>

theorem trace_reset_stale_target:
  assumes "reachable env s" "i < unat (tr_smp_vcpus s)" "job_counters s = Inr s'"
    "run (thread_step roi mg) (map pc_event us) (tr_thread_data s' ! i) = Inr t"
    "length us \<le> unat (td_flowcontrol_target (tr_thread_data s ! i))"
  shows "td_icount_detailed (tr_thread_data s' ! i) = 0 \<and> syncs t = syncs (tr_thread_data s ! i)"
proof -
  have "sized s" using reachable_inv [OF assms(1)] by (simp add: recorder_inv_def)
  with assms(2,3) have t: "tr_thread_data s' ! i = reset_counters (tr_thread_data s ! i)"
    by (auto simp: job_counters_eq vcpus_def)
  from no_sync_below_target [OF assms(4)] assms(5) show ?thesis
    by (simp add: t) (simp add: reset_counters_def syncs_def calls_of_def)
qed

text \<open>A block in the detailed mode on the first processor, and then a reset.\<close>

definition demo_detailed_state :: trace_state where
  "demo_detailed_state = (case run (trace_step demo_env) [Cpu_Event 0 Resume,
     Block_Exec 0 ModeDetailed (demo_tb 0x1000, demo_q, [(demo_q, [])])] demo_recording of Inr s \<Rightarrow> s)"

lemma demo_detailed_state:
  "run (trace_step demo_env) [Cpu_Event 0 Resume,
     Block_Exec 0 ModeDetailed (demo_tb 0x1000, demo_q, [(demo_q, [])])] demo_recording = Inr demo_detailed_state"
  "td_flowcontrol_target (tr_thread_data demo_detailed_state ! 0) = 1000"
  "tr_smp_vcpus demo_detailed_state = 2" "tr_recording demo_detailed_state"
  by (simp_all add: demo_detailed_state_def trace_step_def demo_recording_def started_def demo_installed_def
      trace_initial_def vcpus_def new_writer_def demo_env_def reset_thread_def on_thread_def
      exec_block_def run_hot_blocks_def tb_exec_hot_blocks_def demo_run in_roi_def upt_rec)

theorem trace_reset_stale_target_witness:
  "\<exists>s' t. job_counters demo_detailed_state = Inr s' \<and>
     run (thread_step 0 0) (map pc_event (replicate 1000 (0x1000, demo_q))) (tr_thread_data s' ! 0) = Inr t \<and>
     syncs t = syncs (tr_thread_data demo_detailed_state ! 0)"
proof -
  have wf: "event_wf (Cpu_Event 0 Resume) demo_recording"
    "\<And>s. tr_smp_vcpus s = 2 \<Longrightarrow> event_wf (Block_Exec 0 ModeDetailed (demo_tb 0x1000, demo_q, [(demo_q, [])])) s"
    by (simp_all add: event_wf_def demo_recording_facts tb_run_ok_def demo_tb_ok) (simp add: demo_tb_def)
  obtain s where s: "trace_step demo_env (Cpu_Event 0 Resume) demo_recording = Inr s"
    "trace_step demo_env (Block_Exec 0 ModeDetailed (demo_tb 0x1000, demo_q, [(demo_q, [])])) s = Inr demo_detailed_state"
    using demo_detailed_state(1) by (auto simp: bind_res_eq_Inr)
  have "tr_smp_vcpus s = 2"
    using s(1) by (auto simp: trace_step_def on_thread_Inr demo_recording_facts split: if_splits)
  then have r: "reachable demo_env demo_detailed_state"
    using reachable.stepped [OF reachable.stepped [OF demo_recording_reachable wf(1) s(1)] wf(2) s(2)] by simp
  note inv = reachable_inv [OF r]
  then have "sized demo_detailed_state" by (simp add: recorder_inv_def)
  from job_counters_eq [OF this] counters_inv [OF inv] obtain s' where
    s': "job_counters demo_detailed_state = Inr s'" "recorder_inv s'" "tr_recording s'" "tr_smp_vcpus s' = 2"
    by (simp add: demo_detailed_state)
  then have "br_inv (tr_thread_data s' ! 0)" by (simp add: recorder_inv_def thread_ok_def)
  moreover have "\<forall>e \<in> set (map pc_event (replicate 1000 (0x1000, demo_q))). no_branch_event e"
    by (simp add: pc_event_def no_branch_event_def)
  ultimately obtain t where
    "run (thread_step 0 0) (map pc_event (replicate 1000 (0x1000, demo_q))) (tr_thread_data s' ! 0) = Inr t"
    using br.run_safe by blast
  from trace_reset_stale_target [OF r _ s'(1) this] s' this demo_detailed_state(2,3) show ?thesis by auto
qed

end
