(* ===== verification/System.thy ===== *)
theory System
  imports Pmem Mcount Slomo Hypersh Trace_Runs
begin

text \<open>
  The parts put together: a guest program that uses \<open>guest/hypersh.h\<close>, the dispatcher
  \<open>host/hypersh.cc\<close>, and the four plugins it passes commands to, which share one process and
  with it the state of \<open>getopt\<close>.
\<close>

section \<open>The host\<close>

record host =
  h_pmem :: pmem_state
  h_mcount :: mcount_state
  h_slomo :: slomo_state
  h_trace :: trace_state
  h_getopt :: getopt_state

datatype plugin = Plugin_Pmem | Plugin_Mcount | Plugin_Slomo | Plugin_Trace

text \<open>
  The parameters of the plugins, which plugin has which identifier, and what QEMU answers for
  an identifier that none of them has.
\<close>

record host_env =
  hv_fopen :: "string \<Rightarrow> bool"
  hv_ram :: u64
  hv_trace :: trace_env
  hv_plugin :: "u64 \<Rightarrow> plugin option"
  hv_other :: "u64 \<Rightarrow> string list \<Rightarrow> host \<Rightarrow> fault + (int \<times> host \<times> effect list)"

text \<open>A control function run on its part of the host.\<close>

definition on_part ::
    "'s control \<Rightarrow> (host \<Rightarrow> 's) \<Rightarrow> ('s \<Rightarrow> host \<Rightarrow> host) \<Rightarrow> string list \<Rightarrow> host
       \<Rightarrow> fault + (int \<times> host \<times> effect list)" where
  "on_part ctl get put argv h =
     bind_res (ctl argv (get h) (h_getopt h)) (\<lambda>(rc, s, g, es). Inr (rc, put s (h\<lparr>h_getopt := g\<rparr>), es))"

definition host_send ::
    "host_env \<Rightarrow> u64 \<Rightarrow> nat \<Rightarrow> string list \<Rightarrow> host \<Rightarrow> fault + (int \<times> host \<times> effect list)" where
  "host_send v pid cpu argv h = (case hv_plugin v pid of
     None \<Rightarrow> hv_other v pid argv h
   | Some Plugin_Pmem \<Rightarrow> on_part (pmem_control (hv_fopen v)) h_pmem (\<lambda>s h. h\<lparr>h_pmem := s\<rparr>) argv h
   | Some Plugin_Mcount \<Rightarrow>
       on_part (mcount_control (hv_fopen v) (hv_ram v)) h_mcount (\<lambda>s h. h\<lparr>h_mcount := s\<rparr>) argv h
   | Some Plugin_Slomo \<Rightarrow> on_part slomo_control h_slomo (\<lambda>s h. h\<lparr>h_slomo := s\<rparr>) argv h
   | Some Plugin_Trace \<Rightarrow>
       on_part (trace_control (hv_trace v) cpu) h_trace (\<lambda>s h. h\<lparr>h_trace := s\<rparr>) argv h)"

text \<open>
  A dispatcher whose \<open>send\<close> is the host's, in the release build, with \<open>trace\<close> loaded under
  the identifier \<open>tid\<close>.
\<close>

definition trace_loaded :: "host shell_env \<Rightarrow> host_env \<Rightarrow> u64 \<Rightarrow> bool" where
  "trace_loaded E v tid \<longleftrightarrow> he_send E = host_send v \<and> splits_words (he_parse E) \<and> \<not> he_debug E \<and>
     he_find_id E ''/libtrace.so'' = tid \<and> tid \<noteq> he_id_null E \<and> hv_plugin v tid = Some Plugin_Trace"

section \<open>Commands without options\<close>

definition operand :: "string \<Rightarrow> bool" where
  "operand w \<longleftrightarrow> plain_word w \<and> is_nonopt w"

lemma operands_command:
  assumes "getopt_fresh g" "\<forall>w \<in> set ws. is_nonopt w"
  shows "trace_control env cpu (''trace'' # ws) s g =
    bind_res (trace_command env cpu None ws s) (\<lambda>(s', es).
      Inr (0, s', \<lparr>optind = 0, nextchar = [], first_nonopt = 1, last_nonopt = Suc (length ws),
              initialized = True\<rparr>, es))"
  by (simp add: trace_control_def getopt_loop_operands [OF assms])

text \<open>The system call of a guest command of operands, up to the recorder's command.\<close>

lemma guest_trace_command:
  assumes E: "trace_loaded E v tid" and fresh: "getopt_fresh (h_getopt h)"
    and ws: "\<forall>w \<in> set ws. operand w" "length (join (''trace'' # ws)) < 127"
    and mem: "holds_command E a1 (join (''trace'' # ws))"
  shows "Hypersh.vcpu_syscall_cb E cpu 712 a1 h =
    bind_res (trace_command (hv_trace v) cpu None ws (h_trace h)) (\<lambda>(s', es).
      Inr (h\<lparr>h_getopt := \<lparr>optind = 0, nextchar = [], first_nonopt = 1, last_nonopt = Suc (length ws),
               initialized = True\<rparr>, h_trace := s'\<rparr>,
           Stdout (vcpu_text cpu @ '' guest> '' @ join (''trace'' # ws) @ newline) # es))"
proof -
  from mem obtain rest where "he_read E a1 = Some (join (''trace'' # ws) @ NUL # rest)"
    by (auto simp: holds_command_def)
  moreover have plain: "\<forall>w \<in> set (''trace'' # ws). plain_word w"
    using ws(1) demo_words by (simp add: operand_def)
  moreover have "he_parse E (join (''trace'' # ws)) = Some (''trace'' # ws)"
    using E plain by (intro splits_wordsD) (simp_all add: trace_loaded_def)
  ultimately show ?thesis
    using read_command [OF _ NUL_notin_join [OF plain] ws(2), of E a1 rest cpu h] E
      operands_command [OF fresh, of ws "hv_trace v" cpu "h_trace h"] ws(1)
    by (simp add: HYPERCALL_MAGIC_def run_command_def trace_loaded_def so_name_def host_send_def on_part_def
        operand_def Let_def bind_res_def split_beta split: sum.split)
qed

section \<open>Numbers in commands\<close>

lemma plain_digits: "2 \<le> b \<Longrightarrow> b \<le> 36 \<Longrightarrow> plain_word (show_base b n)"
  unfolding plain_word_def
proof (rule conjI [OF _ ballI])
  assume b: "2 \<le> b" "b \<le> 36"
  show "show_base b n \<noteq> []" by (rule show_base_nonempty)
  fix c assume "c \<in> set (show_base b n)"
  then obtain d where d: "d < 36" "c = digit_char d" using set_show_base [of b c n] b by auto
  have "(of_char c :: nat) \<notin> {34, 39, 92, 35}"
    using of_char_digit_char [OF d(1)] d by (auto split: if_splits)
  then have "c \<notin> {CHR 0x22, CHR 0x27, CHR 0x5C, CHR ''#''}" by auto
  with d show "\<not> is_space c \<and> c \<noteq> NUL \<and> c \<notin> {CHR 0x22, CHR 0x27, CHR 0x5C, CHR ''#''}"
    by (simp add: digit_char_plain)
qed

lemma plain_append: "plain_word v \<Longrightarrow> plain_word w \<Longrightarrow> plain_word (v @ w)"
  by (auto simp: plain_word_def)

lemma plain_0x: "plain_word ''0x''" "plain_word ''(nil)''"
  by code_simp+

lemma nonopt_digits: "2 \<le> b \<Longrightarrow> b \<le> 36 \<Longrightarrow> is_nonopt (show_base b n)"
  using hd_show_base_digit [of b n] set_show_base [of b "hd (show_base b n)" n] show_base_nonempty [of b n]
  by (auto simp: is_nonopt_def) (metis digit_char_plain(2) less_le_trans)

lemma operand_numbers:
  "operand (show_p p)" "operand (''0x'' @ show_x n)" "operand (show_u n)"
  using plain_digits [of 16] plain_digits [of 10] plain_0x plain_append [of "''0x''"] nonopt_digits [of 10]
  by (auto simp: operand_def show_p_def show_x_def show_u_def is_nonopt_def)

lemma operand_words:
  "operand ''gmm''" "operand ''create''" "operand ''assign''" "operand ''delete''" "operand ''message''"
  "operand ''0''" "operand ''start''" "operand ''stop''" "operand ''mode''" "operand ''detailed''"
  "operand ''sync''"
  by code_simp+

lemma min_long: "unat (p :: u64) < 2 ^ 63 \<Longrightarrow> min LONG_MAX (int (unat p)) = int (unat p)"
proof -
  assume "unat p < 2 ^ 63"
  then have "int (unat p) < 2 ^ 63" by (metis of_nat_less_iff of_nat_numeral of_nat_power)
  then show ?thesis by (intro min_absorb2) (unfold LONG_MAX_def, linarith)
qed

lemma read_hex:
  assumes "unat n < 2 ^ 63"
  shows "word_of_int (strtol (''0x'' @ show_x (unat n))) = (n :: u64)"
  unfolding strtol_hex min_long [OF assms] by simp

lemma read_pointer:
  assumes "unat p < 2 ^ 63"
  shows "word_of_int (strtol (show_p p)) = (p :: u64)"
proof -
  have "uint p = int (unat p)" by simp
  then have "strtol (show_p p) = int (unat p)" using min_long [OF assms] by (simp only: strtol_p)
  then show ?thesis by simp
qed

section \<open>Segment commands reach the trace\<close>

text \<open>A command of the library that was not truncated arrives unchanged.\<close>

lemma snprintf_join:
  "\<forall>w \<in> set ws. plain_word w \<Longrightarrow> length (join ws) < n \<Longrightarrow> snprintf n (join ws) = join ws"
  by (intro snprintf_fits NUL_notin_join)

lemma seg_create_command:
  assumes "unat addr < 2 ^ 48" "unat sz < 2 ^ 60"
  shows "Guest.seg_create addr sz =
    (712, join [''trace'', ''gmm'', ''create'', show_p addr, ''0x'' @ show_x (unat sz)])"
    (is "_ = (712, ?cmd)")
proof -
  have "length (show_p addr) \<le> 14" using show_p_length [of 12 addr] assms(1) by simp
  moreover have "length (show_x (unat sz)) \<le> 15" using show_x_length [of 15 "unat sz"] assms(2) by simp
  ultimately have "length ?cmd < 50" by simp
  moreover have "\<forall>w \<in> set [''trace'', ''gmm'', ''create'', show_p addr, ''0x'' @ show_x (unat sz)]. plain_word w"
    using demo_words operand_words operand_numbers by (simp add: operand_def del: append.simps)
  ultimately have "snprintf 50 ?cmd = ?cmd" by (intro snprintf_join)
  then show ?thesis by (simp add: seg_create_def hypersh_exec_def HYPERCALL_MAGIC_def)
qed

text \<open>The recorder's part of the host is consistent and records.\<close>

definition recording_host :: "host \<Rightarrow> nat \<Rightarrow> bool" where
  "recording_host h cpu \<longleftrightarrow> recorder_inv (h_trace h) \<and> tr_recording (h_trace h) \<and>
     cpu < unat (tr_smp_vcpus (h_trace h)) \<and> getopt_fresh (h_getopt h)"

lemma emit_on_host:
  assumes "recorder_inv s" "tr_recording s" "cpu < unat (tr_smp_vcpus s)"
  shows "\<exists>s'. quietly (on_thread cpu (emit (\<lambda>_. c))) s = Inr (s', []) \<and>
    calls_of (tr_thread_data s' ! cpu) = calls_of (tr_thread_data s ! cpu) @ [c] \<and>
    (\<forall>j. j \<noteq> cpu \<longrightarrow> tr_thread_data s' ! j = tr_thread_data s ! j)"
proof -
  obtain w where "td_output (tr_thread_data s ! cpu) = Some w" "cpu < length (tr_thread_data s)"
    using assms by (auto simp: recorder_inv_def thread_ok_def br_inv_def sized_def)
  then show ?thesis by (simp add: quietly_def on_thread_def emit_def calls_of_def)
qed

lemma guest_gmm:
  assumes E: "trace_loaded E v tid" and h: "recording_host h cpu"
    and mem: "holds_command E a1 (join [''trace'', ''gmm'', c, x, y])"
    and len: "length (join [''trace'', ''gmm'', c, x, y]) < 127"
    and ops: "operand c" "operand x" "operand y"
    and cmd: "recorder_gmm cpu c (word_of_int (strtol x)) (word_of_int (strtol y)) (h_trace h) =
      quietly (on_thread cpu (emit (\<lambda>_. call))) (h_trace h)"
  shows "\<exists>h' es. Hypersh.vcpu_syscall_cb E cpu 712 a1 h = Inr (h', es) \<and> getopt_fresh (h_getopt h') \<and>
    calls_of (tr_thread_data (h_trace h') ! cpu) = calls_of (tr_thread_data (h_trace h) ! cpu) @ [call] \<and>
    (\<forall>j. j \<noteq> cpu \<longrightarrow> tr_thread_data (h_trace h') ! j = tr_thread_data (h_trace h) ! j) \<and>
    h_pmem h' = h_pmem h \<and> h_mcount h' = h_mcount h \<and> h_slomo h' = h_slomo h"
proof -
  have f: "getopt_fresh (h_getopt h)" and
    inv: "recorder_inv (h_trace h)" "tr_recording (h_trace h)" "cpu < unat (tr_smp_vcpus (h_trace h))"
    using h by (simp_all add: recording_host_def)
  from emit_on_host [OF inv, of call] obtain s' where
    s': "quietly (on_thread cpu (emit (\<lambda>_. call))) (h_trace h) = Inr (s', [])"
    "calls_of (tr_thread_data s' ! cpu) = calls_of (tr_thread_data (h_trace h) ! cpu) @ [call]"
    "\<forall>j. j \<noteq> cpu \<longrightarrow> tr_thread_data s' ! j = tr_thread_data (h_trace h) ! j" by blast
  have "trace_command (hv_trace v) cpu None [''gmm'', c, x, y] (h_trace h) = Inr (s', [])"
    using cmd s'(1) by (simp add: trace_command_def)
  with guest_trace_command [OF E f, of "[''gmm'', c, x, y]" a1 cpu] mem len ops operand_words s'(2,3)
  show ?thesis by (simp add: getopt_fresh_def)
qed

text \<open>C13: A segment that the guest creates reaches the trace: the string that \<open>seg_create\<close> prints,
  caught by the dispatcher and passed to the recorder, makes exactly one \<open>GMMCommand\<close> call on
  the calling processor's writer, with the address and size the guest gave, for every user
  address and every size below \<open>2^60\<close>; no other plugin and no other processor is touched,
  and the option scanner is ready for the next command.\<close>

theorem guest_segment_traced:
  assumes "trace_loaded E v tid" "recording_host h cpu" "unat addr < 2 ^ 48" "unat sz < 2 ^ 60"
    "holds_command E a1 (snd (Guest.seg_create addr sz))"
  shows "\<exists>h' es. Hypersh.vcpu_syscall_cb E cpu (fst (Guest.seg_create addr sz)) a1 h = Inr (h', es) \<and>
    getopt_fresh (h_getopt h') \<and>
    calls_of (tr_thread_data (h_trace h') ! cpu) =
      calls_of (tr_thread_data (h_trace h) ! cpu) @ [GMMCommand 0 addr sz] \<and>
    (\<forall>j. j \<noteq> cpu \<longrightarrow> tr_thread_data (h_trace h') ! j = tr_thread_data (h_trace h) ! j) \<and>
    h_pmem h' = h_pmem h \<and> h_mcount h' = h_mcount h \<and> h_slomo h' = h_slomo h"
proof -
  note c = seg_create_command [OF assms(3,4)]
  have "length (show_p addr) \<le> 14" "length (show_x (unat sz)) \<le> 15"
    using show_p_length [of 12 addr] show_x_length [of 15 "unat sz"] assms(3,4) by simp_all
  then have len: "length (join [''trace'', ''gmm'', ''create'', show_p addr, ''0x'' @ show_x (unat sz)]) < 127"
    by simp
  have "recorder_gmm cpu ''create'' (word_of_int (strtol (show_p addr)))
      (word_of_int (strtol (''0x'' @ show_x (unat sz)))) (h_trace h) =
    quietly (on_thread cpu (emit (\<lambda>_. GMMCommand 0 addr sz))) (h_trace h)"
    using read_pointer [of addr] read_hex [of sz] assms(3,4)
    by (simp add: recorder_gmm_def del: append.simps)
  from guest_gmm [OF assms(1,2) _ len operand_words(2) operand_numbers(1,2) this] assms(5)
  show ?thesis by (simp add: c del: append.simps join.simps)
qed

section \<open>Commands that do not arrive\<close>

lemma show_base_digits:
  "2 \<le> b \<Longrightarrow> b ^ k \<le> n \<Longrightarrow> k < length (show_base b n)"
proof (induction k arbitrary: n)
  case 0
  then show ?case by (simp add: show_base_nonempty)
next
  case (Suc k)
  have "b * 1 \<le> b * b ^ k" using Suc.prems(1) by (intro mult_le_mono2) simp
  then have "b \<le> n" using Suc.prems(2) by (metis le_trans mult_1_right power_Suc)
  moreover have "b ^ k \<le> n div b" using Suc.prems by (simp add: less_eq_div_iff_mult_less_eq mult.commute)
  ultimately show ?case using Suc.IH [of "n div b"] Suc.prems by (simp add: show_base.simps [of b n])
qed

lemma show_x_16: "16 ^ 15 \<le> unat (d :: u64) \<Longrightarrow> length (show_x (unat d)) = 16"
proof -
  assume "16 ^ 15 \<le> unat d"
  then have "15 < length (show_x (unat d))" unfolding show_x_def by (intro show_base_digits) simp_all
  moreover have "unat d < 16 ^ 16" using unsigned_less [of d] by simp
  then have "length (show_x (unat d)) \<le> 16" by (intro show_x_length) simp_all
  ultimately show ?thesis by simp
qed

lemma show_x_div:
  assumes "256 \<le> n"
  shows "\<exists>x y. show_x n = show_x (n div 256) @ [x, y]"
proof -
  have "show_base 16 n = show_base 16 (n div 16) @ [digit_char (n mod 16)]"
    using assms by (simp add: show_base.simps [of 16 n])
  also have "show_base 16 (n div 16) = show_base 16 (n div 16 div 16) @ [digit_char (n div 16 mod 16)]"
    using less_eq_div_iff_mult_less_eq [of 16 16 n] assms by (simp add: show_base.simps [of 16 "n div 16"])
  also have "n div 16 div 16 = n div 256" by (simp add: div_mult2_eq [symmetric])
  finally show ?thesis by (simp add: show_x_def)
qed

lemma user_msg_double_command:
  assumes "16 ^ 11 \<le> unat p" "unat p < 16 ^ 12" "16 ^ 15 \<le> unat d"
  shows "Guest.user_msg_double p d =
    (712, join [''trace'', ''gmm'', ''message'', show_p p, ''0x'' @ show_x (unat d div 256)])"
proof -
  obtain x y where d: "show_x (unat d) = show_x (unat d div 256) @ [x, y]"
    using show_x_div [of "unat d"] assms(3) by auto
  have lp: "length (show_x (unat p)) = 12"
    using show_base_digits [of 16 11 "unat p"] show_x_length [of 12 "unat p"] assms(1,2)
    by (simp add: show_x_def)
  have ld: "length (show_x (unat d div 256)) = 14" using show_x_16 [OF assms(3)] d by simp
  have nz: "p \<noteq> 0" "d \<noteq> 0" using assms(1,3) by auto
  let ?long = "''trace gmm message '' @ show_p p @ '' '' @ show_p d"
  have "NUL \<notin> set ?long" using NUL_notin_show by simp
  then have "snprintf 50 ?long = take 49 ?long" by (simp add: snprintf_def cstr_id)
  also have "?long = join [''trace'', ''gmm'', ''message'', show_p p, ''0x'' @ show_x (unat d div 256)] @ [x, y]"
    using nz d by (simp add: show_p_def)
  finally show ?thesis using lp ld nz d
    by (simp add: user_msg_double_def hypersh_exec_def HYPERCALL_MAGIC_def show_p_def)
qed

text \<open>C38: A double is cut off: the command of \<open>user_msg_double\<close> does not fit in its 50 bytes when the
  pointer has the 12 digits of a stack or library address and the double's bit pattern has 16
  digits (any double of magnitude at least \<open>2^-767\<close>, or negative); its last two hexadecimal digits are lost without an
  error, and the recorder writes the bit pattern shifted right by eight bits to the trace.\<close>

theorem guest_double_truncated:
  assumes "trace_loaded E v tid" "recording_host h cpu" "tr_current_mode (h_trace h) = ModeDetailed"
    "16 ^ 11 \<le> unat p" "unat p < 16 ^ 12" "16 ^ 15 \<le> unat d"
    "holds_command E a1 (snd (Guest.user_msg_double p d))"
  shows "\<exists>h' es. Hypersh.vcpu_syscall_cb E cpu 712 a1 h = Inr (h', es) \<and>
    calls_of (tr_thread_data (h_trace h') ! cpu) =
      calls_of (tr_thread_data (h_trace h) ! cpu) @ [SendGMMUserMessage 10 p (drop_bit 8 d)]"
proof -
  note c = user_msg_double_command [OF assms(4-6)]
  have n: "unat (drop_bit 8 d) = unat d div 256"
    by (simp only: unat_drop_bit_eq) (simp add: drop_bit_eq_div)
  have "unat d < 2 ^ 64" using unsigned_less [of d] by simp
  then have d': "unat (drop_bit 8 d) < 2 ^ 63" "unat (drop_bit 8 d) < 16 ^ 14"
    by (simp_all add: n less_mult_imp_div_less)
  have "length (show_p p) \<le> 14" "length (show_x (unat d div 256)) \<le> 14"
    using show_p_length [of 12 p] show_x_length [of 14 "unat d div 256"] assms(5) d'(2) by (simp_all add: n)
  then have len: "length (join [''trace'', ''gmm'', ''message'', show_p p, ''0x'' @ show_x (unat d div 256)]) < 127"
    by simp
  have "recorder_gmm cpu ''message'' (word_of_int (strtol (show_p p)))
      (word_of_int (strtol (''0x'' @ show_x (unat d div 256)))) (h_trace h) =
    quietly (on_thread cpu (emit (\<lambda>_. SendGMMUserMessage 10 p (drop_bit 8 d)))) (h_trace h)"
    using read_pointer [of p] read_hex [OF d'(1)] assms(3,5)
    by (simp add: recorder_gmm_def n del: append.simps)
  from guest_gmm [OF assms(1,2) _ len operand_words(5) operand_numbers(1,2) this] assms(7)
  show ?thesis by (fastforce simp: c simp del: append.simps join.simps)
qed

text \<open>The scan of a segment command whose last word is a negative number.\<close>

lemma negative_scan:
  assumes f: "getopt_fresh g" and p: "is_nonopt p" and ds: "ds \<noteq> []" "\<forall>c \<in> set ds. opt_kind ''d:'' c = None \<and> c \<noteq> CHR ''-''"
  shows "\<exists>g'. getopt_loop ''d:'' g [''trace'', ''gmm'', ''assign'', p, CHR ''-'' # ds] =
    Inr (map (\<lambda>c. (CHR ''?'', None, Some (getopt_message [''trace''] ''invalid option'' c))) ds, g',
         [''trace'', CHR ''-'' # ds, ''gmm'', ''assign'', p]) \<and> optind g' = 2"
proof -
  let ?ws = "[''trace'', ''gmm'', ''assign'', p, CHR ''-'' # ds]"
  let ?g = "\<lparr>optind = 4, nextchar = ds, first_nonopt = 1, last_nonopt = 4, initialized = True\<rparr>"
  let ?m = "\<lambda>c. (CHR ''?'', None :: string option, Some (getopt_message ?ws ''invalid option'' c))"
  have "hd ds \<noteq> CHR ''-''" using ds by (cases ds) auto
  then have nd: "CHR ''-'' # ds \<noteq> ''--''" by auto
  have 1: "getopt ''d:'' getopt_start ?ws = getopt ''d:'' ?g ?ws"
    using p ds(1) nd
    by (simp add: getopt_def getopt_init_def getopt_permute_def skip_nonopts_def is_nonopt_def getopt_dashdash_def
        getopt_start_def Let_def eval_nat_numeral)
  have 2: "getopt_loop ''d:'' g ?ws = getopt_loop ''d:'' ?g ?ws"
    by (subst getopt_loop_fresh [OF f], simp, subst (1 2) getopt_loop.simps) (simp only: 1)
  have 3: "getopt_loop ''d:'' \<lparr>optind = 5, nextchar = [], first_nonopt = 1, last_nonopt = 4, initialized = True\<rparr> ?ws =
      Inr ([], \<lparr>optind = 2, nextchar = [], first_nonopt = 2, last_nonopt = 5, initialized = True\<rparr>,
           [''trace'', CHR ''-'' # ds, ''gmm'', ''assign'', p])"
    by (simp add: getopt_loop.simps getopt_def getopt_init_def getopt_permute_def getopt_exchange_def skip_nonopts_def
        getopt_dashdash_def Let_def)
  have "getopt_message ?ws = getopt_message [''trace'']" by (simp add: fun_eq_iff getopt_message_def)
  with 2 3 getopt_loop_unknown [of ?g ds "''d:''" ?ws] ds show ?thesis by simp
qed


text \<open>C39: A negative policy never arrives: the number in the command of \<open>seg_assign(addr, policy)\<close> looks
  like a word of options to the recorder's \<open>getopt\<close>, which takes it out of the operands and complains
  about every digit of it, so the recorder misses an argument and says so,
  writes nothing to the trace, and still reports success to the dispatcher.\<close>

theorem guest_negative_policy_lost:
  assumes "trace_loaded E v tid" "getopt_fresh (h_getopt h)" "unat addr < 2 ^ 48" "sint policy < 0"
    "holds_command E a1 (snd (Guest.seg_assign addr policy))"
  shows "\<exists>h'. Hypersh.vcpu_syscall_cb E cpu (fst (Guest.seg_assign addr policy)) a1 h =
      Inr (h', Stdout (vcpu_text cpu @ '' guest> '' @ snd (Guest.seg_assign addr policy) @ newline) #
               map (\<lambda>c. Stderr (''trace: invalid option -- '' @ [CHR 0x27, c, CHR 0x27] @ newline))
                 (show_u (nat (- sint policy))) @
               [print_error ''Missing gmm argument.'']) \<and>
    h_trace h' = h_trace h \<and> getopt_fresh (h_getopt h')"
proof -
  let ?ds = "show_u (nat (- sint policy))"
  let ?n = "CHR ''-'' # ?ds"
  let ?ws = "[''trace'', ''gmm'', ''assign'', show_p addr, ?n]"
  have d: "show_d (sint policy) = ?n" using assms(4) by (simp add: show_d_def)
  have plain: "\<forall>w \<in> set ?ws. plain_word w"
  proof -
    have "plain_word ''-''" by code_simp
    with plain_digits [of 10] have "plain_word ?n"
      using plain_append [of "''-''"] by (simp add: show_u_def)
    then show ?thesis using demo_words operand_words operand_numbers(1) by (simp add: operand_def)
  qed
  have "- (2 ^ 31) \<le> sint policy" using sint_ge [of policy] by simp
  then have "nat (- sint policy) < 10 ^ 10" by simp
  then have "length ?ds \<le> 10" unfolding show_u_def by (intro length_show_base) simp_all
  moreover have "length (show_p addr) \<le> 14" using show_p_length [of 12 addr] assms(3) by simp
  ultimately have len: "length (join ?ws) < 50" by simp
  then have cmd: "Guest.seg_assign addr policy = (712, join ?ws)"
    using snprintf_join [OF plain, of 50] d by (simp add: seg_assign_def hypersh_exec_def HYPERCALL_MAGIC_def)
  from assms(5) obtain rest where mem: "he_read E a1 = Some (join ?ws @ NUL # rest)"
    by (auto simp: holds_command_def cmd)
  have parse: "he_parse E (join ?ws) = Some ?ws"
    using assms(1) plain by (intro splits_wordsD) (simp_all add: trace_loaded_def)
  have digits: "opt_kind ''d:'' c = None \<and> c \<noteq> CHR ''-''" if "c \<in> set ?ds" for c
  proof -
    from that obtain k where "k < 10" "c = digit_char k" using set_show_base [of 10 c] by (auto simp: show_u_def)
    then have "(of_char c :: nat) \<in> {48..57}" using of_char_digit_char [of k] by simp
    then show ?thesis by (auto simp: opt_kind_def)
  qed
  have "?ds \<noteq> []" "is_nonopt (show_p addr)"
    using operand_numbers(1) by (simp_all add: show_u_def show_base_nonempty operand_def)
  from negative_scan [OF assms(2) this(2,1)] digits obtain g' where
    g': "getopt_loop ''d:'' (h_getopt h) ?ws = Inr (map (\<lambda>c. (CHR ''?'', None,
        Some (getopt_message [''trace''] ''invalid option'' c))) ?ds, g', [''trace'', ?n, ''gmm'', ''assign'', show_p addr])"
      "optind g' = 2" by blast
  have errs: "getopt_errors (map (\<lambda>c. (CHR ''?'', None, Some (getopt_message [''trace''] ''invalid option'' c))) cs) =
      map (\<lambda>c. Stderr (''trace: invalid option -- '' @ [CHR 0x27, c, CHR 0x27] @ newline)) cs" for cs
    by (induction cs) (simp_all add: getopt_message_def)
  have dir: "fold trace_option (map (\<lambda>c. (CHR ''?'', None, m c)) cs) dir = dir" for cs m dir
    by (induction cs) (simp_all add: trace_option_def)
  have "trace_control (hv_trace v) cpu ?ws (h_trace h) (h_getopt h) =
      Inr (0, h_trace h, g'\<lparr>optind := 0\<rparr>, map (\<lambda>c. Stderr (''trace: invalid option -- '' @ [CHR 0x27, c, CHR 0x27] @ newline)) ?ds @
        [print_error ''Missing gmm argument.''])"
    using g' by (simp add: trace_control_def dir errs trace_command_def del: append.simps)
  then show ?thesis
    using read_command [OF mem NUL_notin_join [OF plain], of cpu h] len parse assms(1)
    by (simp add: cmd HYPERCALL_MAGIC_def run_command_def trace_loaded_def so_name_def host_send_def on_part_def
        getopt_fresh_def Let_def del: join.simps)
qed


text \<open>C40: The plugins disturb each other through \<open>getopt\<close>: after \<open>mcount -f <file> start\<close>, the command
  \<open>trace mode <m>\<close>, whatever the mode, is taken for \<open>trace start\<close>, as the scan resumes behind
  the end of the new argument vector and no operand is seen. In every reachable state
  of the recorder, it reports success to the dispatcher; when the recorder is recording it only prints that it already
  is, and the mode is not switched; otherwise it starts a recording in a new directory, in the fast-forward mode.\<close>

theorem mcount_then_trace_mode:
  assumes "getopt_fresh g" "fopen_ok out" "reachable env t"
    "te_mkdtemp env (refresh_template (tr_output_dir_template t)) = Some d"
  shows "\<exists>s' g' es t' h fs. mcount_control fopen_ok ram [''mcount'', ''-f'', out, ''start''] s g = Inr (0, s', g', es) \<and>
    trace_control env cpu [''trace'', ''mode'', m] t g' = Inr (0, t', h, fs) \<and> getopt_fresh h \<and>
    (if tr_recording t then t' = t \<and> fs = [print_error ''already recording.'']
     else tr_recording t' \<and> tr_current_mode t' = ModeIcount \<and> print_info (''recording to '' @ d) \<in> set fs)"
proof -
  let ?g = "\<lparr>optind = 3, nextchar = [], first_nonopt = 3, last_nonopt = 4, initialized = True\<rparr>"
  let ?h = "?g\<lparr>optind := 0, first_nonopt := 3, last_nonopt := 3\<rparr>"
  have l1: "getopt_loop ''f:a:m:'' g [''mcount'', ''-f'', out, ''start''] =
    Inr ([(CHR ''f'', Some out, None)], ?g, [''mcount'', ''-f'', out, ''start''])"
    by (subst getopt_loop_fresh [OF assms(1)]) (simp_all add: getopt_eval getopt_start_def)
  have l2: "getopt_loop ''d:'' ?g [''trace'', ''mode'', m] =
    Inr ([], \<lparr>optind = 3, nextchar = [], first_nonopt = 3, last_nonopt = 3, initialized = True\<rparr>, [''trace'', ''mode'', m])"
    by (simp add: getopt_eval)
  obtain s' es where "hypercall_mcount_init fopen_ok (Some out) ram 16777216 100 s = Inr (s', es)"
    using mcount_init_ok [of 16777216 "Some out" fopen_ok ram 100 s] assms(2) by auto
  then have mcount: "\<exists>es. mcount_control fopen_ok ram [''mcount'', ''-f'', out, ''start''] s g = Inr (0, s', ?g, es)"
    by (simp add: mcount_control_def l1 mcount_option_def mcount_defaults_def Let_def)
  have trace: "trace_control env cpu [''trace'', ''mode'', m] t ?g =
       bind_res (recorder_start env None t) (\<lambda>(t', fs). Inr (0, t', ?h, fs))"
    by (simp add: trace_control_def l2 trace_command_def)
  let ?t = "t\<lparr>tr_output_dir_template := d\<rparr>"
  have "recorder_start env None t = Inr (started env d ?t, start_effects env d ?t)" if "\<not> tr_recording t"
    using recorder_start_eq [OF _ that, of env None d ?t] reachable_inv [OF assms(3)] assms(4)
    by (simp add: output_dir_def recorder_inv_def)
  then have "\<exists>t' fs. recorder_start env None t = Inr (t', fs) \<and>
    (if tr_recording t then t' = t \<and> fs = [print_error ''already recording.'']
     else tr_recording t' \<and> tr_current_mode t' = ModeIcount \<and> print_info (''recording to '' @ d) \<in> set fs)"
    by (cases "tr_recording t") (simp_all add: recorder_start_def started_def start_effects_def)
  then obtain t' fs where "recorder_start env None t = Inr (t', fs)"
    "if tr_recording t then t' = t \<and> fs = [print_error ''already recording.'']
     else tr_recording t' \<and> tr_current_mode t' = ModeIcount \<and> print_info (''recording to '' @ d) \<in> set fs" by blast
  moreover have "getopt_fresh ?h" by (simp add: getopt_fresh_def)
  ultimately show ?thesis using mcount trace by fastforce
qed

section \<open>Concrete hosts\<close>

text \<open>
  A host with the recorder of \<open>Trace_Runs\<close> recording in a mode, the other plugins as loaded, and
  a dispatcher whose guest memory holds one command.
\<close>

definition demo_host :: "sift_mode \<Rightarrow> host" where
  "demo_host m = \<lparr>h_pmem = pmem_initial, h_mcount = mcount_initial, h_slomo = slomo_initial,
     h_trace = demo_recording\<lparr>tr_current_mode := m\<rparr>, h_getopt = getopt_start\<rparr>"

definition demo_host_env :: host_env where
  "demo_host_env = \<lparr>hv_fopen = (\<lambda>_. True), hv_ram = 64, hv_trace = demo_env,
     hv_plugin = (\<lambda>i. if i = 1 then Some Plugin_Trace else None), hv_other = (\<lambda>_ _ h. Inr (-1, h, []))\<rparr>"

definition demo_dispatcher :: "string \<Rightarrow> host shell_env" where
  "demo_dispatcher cmd = \<lparr>he_debug = False, he_read = (\<lambda>_. Some (cmd @ NUL # replicate (126 - length cmd) NUL)),
     he_parse = demo_parse, he_find_id = (\<lambda>n. if n = ''/libtrace.so'' then 1 else 0), he_id_null = 0,
     he_send = host_send demo_host_env\<rparr>"

lemma demo_dispatcher:
  "trace_loaded (demo_dispatcher cmd) demo_host_env 1" "holds_command (demo_dispatcher cmd) a1 cmd"
  by (simp_all add: trace_loaded_def demo_dispatcher_def demo_host_env_def demo_parse_splits holds_command_def)

lemma demo_host: "recording_host (demo_host m) 1" "tr_current_mode (h_trace (demo_host m)) = m"
  using reachable_inv [OF demo_recording_reachable]
  by (simp_all add: recording_host_def demo_host_def recorder_inv_fields demo_recording_facts
      getopt_fresh_def getopt_start_def)

theorem guest_segment_traced_witness:
  "\<exists>h' es. Hypersh.vcpu_syscall_cb (demo_dispatcher (snd (Guest.seg_create 0x7fff0000 4096))) 1 712 0x6000
      (demo_host ModeMemory) = Inr (h', es) \<and>
    calls_of (tr_thread_data (h_trace h') ! 1) =
      calls_of (tr_thread_data (h_trace (demo_host ModeMemory)) ! 1) @ [GMMCommand 0 0x7fff0000 4096]"
proof -
  have "fst (Guest.seg_create 0x7fff0000 4096) = 712" by (simp add: seg_create_def hypersh_exec_def HYPERCALL_MAGIC_def)
  then show ?thesis
    using guest_segment_traced [OF demo_dispatcher(1) demo_host(1), of "0x7fff0000" 4096, OF _ _ demo_dispatcher(2)]
    by simp blast
qed

theorem guest_double_truncated_witness:
  "\<exists>h' es. Hypersh.vcpu_syscall_cb (demo_dispatcher (snd (Guest.user_msg_double 0x7fff00001000 0x3ff0000000000001)))
      1 712 0x6000 (demo_host ModeDetailed) = Inr (h', es) \<and>
    calls_of (tr_thread_data (h_trace h') ! 1) =
      calls_of (tr_thread_data (h_trace (demo_host ModeDetailed)) ! 1) @
        [SendGMMUserMessage 10 0x7fff00001000 0x3ff00000000000]"
proof -
  have "drop_bit 8 (0x3ff0000000000001 :: u64) = 0x3ff00000000000" by (simp add: drop_bit_eq_div)
  then show ?thesis
    using guest_double_truncated [OF demo_dispatcher(1) demo_host, of "0x7fff00001000" "0x3ff0000000000001", OF _ _ _ demo_dispatcher(2)]
    by simp
qed

theorem guest_negative_policy_lost_witness:
  "\<exists>h'. Hypersh.vcpu_syscall_cb (demo_dispatcher (snd (Guest.seg_assign 0x7fff0000 (-12)))) 1
      (fst (Guest.seg_assign 0x7fff0000 (-12))) 0x6000 (demo_host ModeMemory) =
    Inr (h', [Stdout (vcpu_text 1 @ '' guest> '' @ snd (Guest.seg_assign 0x7fff0000 (-12)) @ newline),
              Stderr (''trace: invalid option -- '' @ [CHR 0x27, CHR ''1'', CHR 0x27] @ newline),
              Stderr (''trace: invalid option -- '' @ [CHR 0x27, CHR ''2'', CHR 0x27] @ newline),
              print_error ''Missing gmm argument.'']) \<and> h_trace h' = h_trace (demo_host ModeMemory)"
proof -
  have "show_u 12 = ''12''" by code_simp
  moreover have "getopt_fresh (h_getopt (demo_host ModeMemory))" by (simp add: demo_host_def)
  ultimately show ?thesis
    using guest_negative_policy_lost [OF demo_dispatcher(1) _ _ _ demo_dispatcher(2), of "demo_host ModeMemory" "0x7fff0000" "-12" 1 "0x6000"]
    by (simp del: append.simps) auto
qed

theorem mcount_then_trace_mode_witness:
  "(\<exists>s' g' es t' h fs. mcount_control (\<lambda>_. True) 64 [''mcount'', ''-f'', ''m.out'', ''start''] mcount_initial getopt_start =
      Inr (0, s', g', es) \<and>
    trace_control demo_env 0 [''trace'', ''mode'', ''detailed''] demo_installed g' = Inr (0, t', h, fs) \<and>
    \<not> tr_recording demo_installed \<and> tr_recording t' \<and> tr_current_mode t' = ModeIcount) \<and>
   (\<exists>s' g' es h. mcount_control (\<lambda>_. True) 64 [''mcount'', ''-f'', ''m.out'', ''start''] mcount_initial getopt_start =
      Inr (0, s', g', es) \<and>
    trace_control demo_env 0 [''trace'', ''mode'', ''detailed''] demo_recording g' =
      Inr (0, demo_recording, h, [print_error ''already recording.'']))"
proof -
  have e: "te_mkdtemp demo_env x = Some x" for x by (simp add: demo_env_def)
  have "\<not> tr_recording demo_installed" by (simp add: demo_installed_def trace_initial_def)
  then show ?thesis
    using mcount_then_trace_mode [OF getopt_fresh_start _ demo_installed_reachable e, of "\<lambda>_. True" "''m.out''" 64 mcount_initial 0 "''detailed''"]
      mcount_then_trace_mode [OF getopt_fresh_start _ demo_recording_reachable e, of "\<lambda>_. True" "''m.out''" 64 mcount_initial 0 "''detailed''"]
      demo_recording_facts(1)
    by auto
qed

section \<open>Commands for the recorder itself\<close>

text \<open>C12: The guest controls the recorder: from a fresh \<open>getopt\<close>, the library's \<open>trace_start\<close>,
  \<open>trace_detailed\<close> and \<open>trace_stop\<close> run exactly \<open>recorder_start\<close> with a new directory,
  \<open>recorder_mode\<close> for the detailed mode and \<open>recorder_stop\<close> for the calling processor, with their
  faults and effects behind the echo of the command, change no other plugin, and leave
  \<open>getopt\<close> fresh for the next command.\<close>

theorem guest_controls_recorder:
  assumes "trace_loaded E v tid" "getopt_fresh (h_getopt h)" "holds_command E a1 (snd c)"
    "(c, op) \<in> {(Guest.trace_start, recorder_start (hv_trace v) None),
                (Guest.trace_detailed, recorder_mode (hv_trace v) cpu ''detailed''),
                (Guest.trace_stop, recorder_stop cpu)}"
  shows "case op (h_trace h) of
      Inl f \<Rightarrow> Hypersh.vcpu_syscall_cb E cpu (fst c) a1 h = Inl f
    | Inr (t, es) \<Rightarrow> \<exists>g. getopt_fresh g \<and> Hypersh.vcpu_syscall_cb E cpu (fst c) a1 h =
        Inr (h\<lparr>h_getopt := g, h_trace := t\<rparr>, Stdout (vcpu_text cpu @ '' guest> '' @ snd c @ newline) # es)"
proof -
  let ?g = "\<lambda>n. \<lparr>optind = 0, nextchar = [], first_nonopt = 1, last_nonopt = Suc n, initialized = True\<rparr>"
  have fresh: "getopt_fresh (?g n)" for n by (simp add: getopt_fresh_def)
  have run: ?thesis
    if "c = (712, join (''trace'' # ws))" "\<forall>w \<in> set ws. operand w" "length (join (''trace'' # ws)) < 127"
      "trace_command (hv_trace v) cpu None ws (h_trace h) = op (h_trace h)" for ws
    using guest_trace_command [OF assms(1,2) that(2,3), of a1 cpu] assms(3) that(1,4)
    by (cases "op (h_trace h)") (auto intro!: exI [of _ "?g (length ws)"] fresh)
  have magic: "hypersh_exec cmd = (712, cmd)" for cmd by (simp add: hypersh_exec_def HYPERCALL_MAGIC_def)
  from assms(4) consider
    (start) "c = hypersh_exec (join [''trace'', ''start''])" "op = recorder_start (hv_trace v) None"
  | (mode) "c = hypersh_exec (join [''trace'', ''mode'', ''detailed''])" "op = recorder_mode (hv_trace v) cpu ''detailed''"
  | (stop) "c = hypersh_exec (join [''trace'', ''stop''])" "op = recorder_stop cpu"
    by (auto simp: Guest.trace_start_def trace_detailed_def Guest.trace_stop_def)
  then show ?thesis
  proof cases
    case start
    then show ?thesis by (intro run [of "[''start'']"]) (simp_all add: magic operand_words trace_command_def)
  next
    case mode
    then show ?thesis by (intro run [of "[''mode'', ''detailed'']"]) (simp_all add: magic operand_words trace_command_def)
  next
    case stop
    then show ?thesis by (intro run [of "[''stop'']"]) (simp_all add: magic operand_words trace_command_def)
  qed
qed

theorem guest_controls_recorder_witness:
  "\<exists>t es g. recorder_stop 1 (h_trace (demo_host ModeMemory)) = Inr (t, es) \<and> getopt_fresh g \<and>
    Hypersh.vcpu_syscall_cb (demo_dispatcher (snd Guest.trace_stop)) 1 (fst Guest.trace_stop) 0x6000 (demo_host ModeMemory) =
      Inr ((demo_host ModeMemory)\<lparr>h_getopt := g, h_trace := t\<rparr>,
           Stdout (vcpu_text 1 @ '' guest> '' @ snd Guest.trace_stop @ newline) # es)"
proof -
  have h: "recording_host (demo_host ModeMemory) 1" by (rule demo_host)
  then obtain s' where "quietly (on_thread 1 (emit (\<lambda>_. End))) (h_trace (demo_host ModeMemory)) = Inr (s', [])"
    using emit_on_host [of "h_trace (demo_host ModeMemory)" 1 End] by (auto simp: recording_host_def)
  then have "\<exists>t es. recorder_stop 1 (h_trace (demo_host ModeMemory)) = Inr (t, es)"
    using h by (auto simp: recorder_stop_def recording_host_def quietly_def bind_res_eq_Inr)
  then show ?thesis
    using guest_controls_recorder [OF demo_dispatcher(1) _ demo_dispatcher(2), of "demo_host ModeMemory" Guest.trace_stop
        "recorder_stop 1" 1 "0x6000"] h
    by (fastforce simp: recording_host_def)
qed

end
