(* ===== verification/Hot_Blocks.thy ===== *)
theory Hot_Blocks
  imports Trace_Runs "HOL-Library.Multiset"
begin

text \<open>
  The hot blocks: the per-processor block counters that the callback of \<open>host/trace/callbacks.cc\<close>
  keeps, over executions of the recorder, and the multimap of \<open>host/trace/control.cc\<close> in which the stop
  job sorts them.
\<close>

section \<open>Counting\<close>

lemma bump_block_keys: "set (map fst (bump_block k m)) = insert k (set (map fst m))"
  by (induction k m rule: bump_block.induct) auto

lemma bump_block_distinct: "distinct (map fst m) \<Longrightarrow> distinct (map fst (bump_block k m))"
proof (induction k m rule: bump_block.induct)
  case (2 k k' n m)
  then show ?case using bump_block_keys [of k m] by (auto simp: image_iff)
qed simp

lemma bump_block_lookup:
  "map_of (bump_block k m) = (map_of m)(k \<mapsto> (case map_of m k of None \<Rightarrow> 1 | Some n \<Rightarrow> n + 1))"
  by (induction k m rule: bump_block.induct) (auto simp: fun_eq_iff)

lemma bump_blocks_counted:
  "distinct (map fst (fold bump_block ks [])) \<and>
   map_of (fold bump_block ks []) k =
     (let n = length (filter (\<lambda>x. x = k) ks) in if n = 0 then None else Some (of_nat n))"
proof (induction ks rule: rev_induct)
  case (snoc x ks)
  then show ?case
    by (cases "x = k") (auto simp: bump_block_distinct bump_block_lookup Let_def add.commute split: if_splits)
qed simp

text \<open>Every mode registers the counting callback exactly once, with the block's address.\<close>

lemma trans_hot_blocks:
  assumes "tb_ok tb" "vcpu_tb_trans_cb mode tb = Inr r"
  shows "filter (\<lambda>(f, u). f = Tb_Hot_Blocks) (cb_tb r) = [(Tb_Hot_Blocks, tb_vaddr tb)]"
  using assms
  by (cases "mode \<in> {ModeIcount, ModeMemory, ModeDetailed}")
     (auto simp: tb_ok_def trans_icount trans_memory_mode trans_detailed_mode trans_other)

lemma run_hot_blocks_filter:
  "run_hot_blocks i q r s = block (map (\<lambda>(f, u). tb_exec_hot_blocks i q u)
     (filter (\<lambda>(f, u). f = Tb_Hot_Blocks) (cb_tb r))) s"
proof -
  have "block (map (\<lambda>(f, u). if f = Tb_Hot_Blocks then tb_exec_hot_blocks i q u else block []) xs) =
      block (map (\<lambda>(f, u). tb_exec_hot_blocks i q u) (filter (\<lambda>(f, u). f = Tb_Hot_Blocks) xs))" for xs
    by (induction xs) (auto simp: block.simps intro!: ext)
  then show ?thesis by (simp add: run_hot_blocks_def)
qed

text \<open>One executed block.\<close>

definition counts_block :: "u64 \<Rightarrow> tb_run \<Rightarrow> bool" where
  "counts_block roi b = (case b of (tb, q, runs) \<Rightarrow> q_page_directory q = roi)"

lemma block_exec_counts:
  assumes "recorder_inv s" "tr_recording s" "i < unat (tr_smp_vcpus s)" "tb_run_ok (mode, b)"
    "trace_step env (Block_Exec i mode b) s = Inr s'"
  shows "tr_block_cnt s' = (tr_block_cnt s)[i := if counts_block (tr_roi_cr3 s) b
           then bump_block (tb_vaddr (fst b)) (tr_block_cnt s ! i) else tr_block_cnt s ! i]"
proof -
  obtain tb q runs where b: "b = (tb, q, runs)" by (cases b)
  then have "tb_ok tb" using assms(4) by (simp add: tb_run_ok_def)
  have reg: "tr_registered s" and i: "i < length (tr_block_cnt s)"
    using assms(1-3) by (simp_all add: recorder_inv_def sized_def)
  from assms(5) reg obtain r where r: "vcpu_tb_trans_cb mode tb = Inr r" "exec_block i r q runs s = Inr s'"
    by (auto simp: trace_step_def b bind_res_eq_Inr)
  have "run_hot_blocks i q r s = tb_exec_hot_blocks i q (tb_vaddr tb) s"
    by (simp add: run_hot_blocks_filter trans_hot_blocks [OF \<open>tb_ok tb\<close> r(1)] block.simps bind_res_def split: sum.split)
  with r(2) i show ?thesis
    by (auto simp: exec_block_def block.simps bind_res_eq_Inr on_thread_Inr tb_exec_hot_blocks_def ifs_def b counts_block_def)
qed

definition counted :: "u64 \<Rightarrow> nat \<Rightarrow> (nat \<times> sift_mode \<times> tb_run) list \<Rightarrow> u64 list" where
  "counted roi j bs = map (\<lambda>(i, mode, b). tb_vaddr (fst b)) (filter (\<lambda>(i, mode, b). i = j \<and> counts_block roi b) bs)"

lemma block_execs_count:
  assumes "recorder_inv s" "tr_recording s"
    "\<forall>(i, mode, b) \<in> set bs. i < unat (tr_smp_vcpus s) \<and> tb_run_ok (mode, b)"
  shows "\<exists>s'. run (trace_step env) (map (\<lambda>(i, mode, b). Block_Exec i mode b) bs) s = Inr s' \<and>
    (\<forall>j < unat (tr_smp_vcpus s). tr_block_cnt s' ! j = fold bump_block (counted (tr_roi_cr3 s) j bs) (tr_block_cnt s ! j))"
  using assms
proof (induction bs arbitrary: s)
  case Nil
  then show ?case by (simp add: counted_def)
next
  case (Cons x bs)
  obtain i mode b where x: "x = (i, mode, b)" by (cases x)
  with Cons.prems(3) have ok: "i < unat (tr_smp_vcpus s)" "tb_run_ok (mode, b)" by auto
  from block_exec_thread [OF Cons.prems(1,2) ok] obtain s1 where
    s1: "trace_step env (Block_Exec i mode b) s = Inr s1" "recorder_inv s1" "same_control s s1" by blast
  note c = block_exec_counts [OF Cons.prems(1,2) ok s1(1)]
  have f: "tr_recording s1" "tr_smp_vcpus s1 = tr_smp_vcpus s" "tr_roi_cr3 s1 = tr_roi_cr3 s"
    using s1(3) Cons.prems(2) by (simp_all add: same_control_def)
  from Cons.IH [OF s1(2) f(1)] Cons.prems(3) f(2) obtain s2 where
    s2: "run (trace_step env) (map (\<lambda>(i, mode, b). Block_Exec i mode b) bs) s1 = Inr s2"
    "\<forall>j < unat (tr_smp_vcpus s). tr_block_cnt s2 ! j = fold bump_block (counted (tr_roi_cr3 s) j bs) (tr_block_cnt s1 ! j)"
    by (auto simp: f(3))
  have "length (tr_block_cnt s) = unat (tr_smp_vcpus s)" using Cons.prems(1) by (simp add: recorder_inv_def sized_def)
  with s2 show ?case using s1(1)
    by (auto simp: x c counted_def nth_list_update)
qed

text \<open>C23: The block counters are exact: when a recording has not entered a block yet and
  processors execute any blocks, translated for any modes and in any interleaving, then no step fails, and the counters of a
  processor give each address the number (modulo \<open>2^64\<close>) of its executions of the block at that address that
  started with the page directory of the region of interest, in one entry, and have no entry for
  other addresses.\<close>

theorem hot_blocks_counted:
  assumes "reachable env s" "tr_recording s" "set (tr_block_cnt s) \<subseteq> {[]}" "j < unat (tr_smp_vcpus s)"
    "\<forall>(i, mode, b) \<in> set bs. i < unat (tr_smp_vcpus s) \<and> tb_run_ok (mode, b)"
  shows "\<exists>s'. run (trace_step env) (map (\<lambda>(i, mode, b). Block_Exec i mode b) bs) s = Inr s' \<and>
    distinct (map fst (tr_block_cnt s' ! j)) \<and>
    map_of (tr_block_cnt s' ! j) k =
      (let n = length (filter (\<lambda>(i, mode, tb, q, runs). i = j \<and> tb_vaddr tb = k \<and>
                                 q_page_directory q = tr_roi_cr3 s) bs)
       in if n = 0 then None else Some (of_nat n))"
proof -
  note inv = reachable_inv [OF assms(1)]
  from block_execs_count [OF inv assms(2,5)] obtain s' where
    s': "run (trace_step env) (map (\<lambda>(i, mode, b). Block_Exec i mode b) bs) s = Inr s'"
    "tr_block_cnt s' ! j = fold bump_block (counted (tr_roi_cr3 s) j bs) (tr_block_cnt s ! j)"
    using assms(4) by blast
  have "j < length (tr_block_cnt s)" using inv assms(4) by (simp add: recorder_inv_def sized_def)
  with assms(3) have "tr_block_cnt s ! j = []" using nth_mem by blast
  moreover have "length (filter (\<lambda>x. x = k) (counted (tr_roi_cr3 s) j bs)) =
      length (filter (\<lambda>(i, mode, tb, q, runs). i = j \<and> tb_vaddr tb = k \<and> q_page_directory q = tr_roi_cr3 s) bs)"
    by (induction bs) (auto simp: counted_def counts_block_def)
  ultimately show ?thesis
    using s' bump_blocks_counted [of "counted (tr_roi_cr3 s) j bs" k] by (simp add: Let_def)
qed

theorem hot_blocks_counted_witness:
  "\<exists>s'. run (trace_step demo_env) (map (\<lambda>(i, mode, b). Block_Exec i mode b)
      [(0, ModeIcount, demo_tb 0x1000, demo_q\<lparr>q_page_directory := 0\<rparr>, []), (0, ModeIcount, demo_tb 0x1000, demo_q, []),
       (1, ModeIcount, demo_tb 0x1000, demo_q\<lparr>q_page_directory := 0\<rparr>, []),
       (0, ModeMemory, demo_tb 0x1000, demo_q\<lparr>q_page_directory := 0\<rparr>, [])]) demo_recording = Inr s' \<and>
    map_of (tr_block_cnt s' ! 0) 0x1000 = Some 2"
proof -
  let ?bs = "[(0, ModeIcount, demo_tb 0x1000, demo_q\<lparr>q_page_directory := 0\<rparr>, []), (0, ModeIcount, demo_tb 0x1000, demo_q, []),
       (1, ModeIcount, demo_tb 0x1000, demo_q\<lparr>q_page_directory := 0\<rparr>, []),
       (0, ModeMemory, demo_tb 0x1000, demo_q\<lparr>q_page_directory := 0\<rparr>, [])]"
  have "set (tr_block_cnt demo_recording) \<subseteq> {[]}" "tr_roi_cr3 demo_recording = 0"
    by (auto simp: demo_recording_def started_def demo_installed_def trace_initial_def vcpus_def)
  moreover have "\<forall>(i, mode, b) \<in> set ?bs. i < unat (tr_smp_vcpus demo_recording) \<and> tb_run_ok (mode, b)"
    by (simp add: demo_recording_facts tb_run_ok_def demo_tb_ok)
  moreover have "q_page_directory demo_q = 0x5000" "tb_vaddr (demo_tb 0x1000) = 0x1000" by (simp_all add: demo_q_def demo_tb_def)
  ultimately show ?thesis
    using hot_blocks_counted [OF demo_recording_reachable demo_recording_facts(1), of 0 ?bs "0x1000"]
    by (simp add: demo_recording_facts del: run_Cons) blast
qed

section \<open>Sorting\<close>

definition descending :: "(u64 \<times> u64) list \<Rightarrow> bool" where
  "descending m \<longleftrightarrow> sorted_wrt (\<lambda>x y. fst y \<le> fst x) m"

lemma take_below: "x \<in> set (take (length (takeWhile P m)) m) \<Longrightarrow> P x"
  by (metis takeWhile_eq_take set_takeWhileD)

lemma sorted_drop_above:
  assumes "descending m" "x \<in> set (drop (length (takeWhile (\<lambda>x. p < fst x) m)) m)"
  shows "fst x \<le> p"
proof -
  have d: "drop (length (takeWhile (\<lambda>x. p < fst x) m)) m = dropWhile (\<lambda>x. p < fst x) m"
    by (simp add: dropWhile_eq_drop)
  have "descending (dropWhile (\<lambda>x. p < fst x) m)"
    using assms(1) by (simp add: descending_def d [symmetric] sorted_wrt_drop)
  moreover have "dropWhile (\<lambda>x. p < fst x) m \<noteq> []"
    using assms(2) d by (metis empty_iff list.set(1))
  moreover from this have "\<not> p < fst (hd (dropWhile (\<lambda>x. p < fst x) m))" by (rule hd_dropWhile)
  ultimately show ?thesis
    using assms(2) d by (cases "dropWhile (\<lambda>x. p < fst x) m") (auto simp: descending_def)
qed

lemma hint_insert_ok:
  assumes "descending m" "hint_insert p (hint, m) = (hint', m')"
  shows "descending m' \<and> mset m' = add_mset p (mset m)"
proof -
  define lo where "lo = length (takeWhile (\<lambda>x. fst p < fst x) m)"
  define hi where "hi = length (takeWhile (\<lambda>x. fst p \<le> fst x) m)"
  define pos where "pos = max lo (min hint hi)"
  have m': "m' = take pos m @ p # drop pos m"
    using assms(2) by (simp add: hint_insert_def Let_def pos_def lo_def hi_def)
  have "lo \<le> hi" unfolding lo_def hi_def
    by (induction m) (auto simp: less_imp_le)
  then have pos: "lo \<le> pos" "pos \<le> hi" by (auto simp: pos_def)
  have "fst p \<le> fst x" if "x \<in> set (take pos m)" for x
  proof -
    have "x \<in> set (take hi m)" using that pos(2) set_take_subset_set_take [of pos hi m] by auto
    then show ?thesis unfolding hi_def by (rule take_below)
  qed
  moreover have "fst x \<le> fst p" if "x \<in> set (drop pos m)" for x
  proof -
    have "x \<in> set (drop lo m)" using that pos(1) set_drop_subset_set_drop [of lo pos m] by auto
    then show ?thesis using sorted_drop_above [OF assms(1)] by (simp add: lo_def)
  qed
  moreover have "descending (take pos m @ drop pos m)" using assms(1) by simp
  ultimately have "descending m'"
    unfolding m' by (auto simp: descending_def sorted_wrt_append) (meson order_trans)
  moreover have "mset m' = add_mset p (mset m)"
    unfolding m' by (metis append_take_drop_id mset.simps(2) mset_append union_mset_add_mset_right)
  ultimately show ?thesis by simp
qed

lemma sort_map_ok:
  "descending (sort_map cnt) \<and> mset (sort_map cnt) = mset (map (\<lambda>(k, n). (n, k)) cnt)"
proof -
  have "descending (snd (fold hint_insert ps (h, m))) \<and>
      mset (snd (fold hint_insert ps (h, m))) = mset ps + mset m" if "descending m" for ps h m
    using that
  proof (induction ps arbitrary: h m)
    case (Cons p ps)
    obtain h' m' where hm: "hint_insert p (h, m) = (h', m')" by fastforce
    from hint_insert_ok [OF Cons.prems this] Cons.IH [of m' h'] show ?case by (simp add: hm)
  qed simp
  from this [of "[]" "map (\<lambda>(k, n). (n, k)) cnt" 0] show ?thesis
    by (simp add: sort_map_def descending_def)
qed

text \<open>C22: The report shows the hottest blocks, in whatever order the hash map is iterated: the sorted map
  is a permutation of the counters in descending order of their counts, so the (at most ten)
  blocks printed have been entered at least as often as any block that is not printed.\<close>

theorem hot_blocks_hottest:
  assumes "mset (iteration cnt) = mset cnt" "(k, n) \<in> set cnt"
  shows "mset (sort_map (iteration cnt)) = mset (map (\<lambda>(k, n). (n, k)) cnt) \<and>
    sorted_wrt (\<lambda>x y. fst y \<le> fst x) (sort_map (iteration cnt)) \<and>
    ((n, k) \<in> set (take 10 (sort_map (iteration cnt))) \<or>
     (\<forall>(n', k') \<in> set (take 10 (sort_map (iteration cnt))). n \<le> n'))"
proof -
  let ?m = "sort_map (iteration cnt)"
  have m: "descending ?m" "mset ?m = mset (map (\<lambda>(k, n). (n, k)) cnt)"
    using sort_map_ok [of "iteration cnt"] assms(1) by (simp_all add: mset_map)
  have "(n, k) \<in> set ?m" using assms(2) m(2) by (metis (mono_tags, lifting) case_prod_conv image_eqI set_map set_mset_mset)
  then have "(n, k) \<in> set (take 10 ?m) \<or> (n, k) \<in> set (drop 10 ?m)"
    by (metis Un_iff append_take_drop_id set_append)
  moreover have "fst y \<le> fst x" if "x \<in> set (take 10 ?m)" "y \<in> set (drop 10 ?m)" for x y
    using m(1) that unfolding descending_def
    by (metis append_take_drop_id sorted_wrt_append)
  ultimately show ?thesis using m by (fastforce simp: descending_def)
qed

theorem hot_blocks_hottest_witness:
  "(2, 0x1000) \<in> set (take 10 (sort_map (rev [(0x1000, 2), (0x2000, 1)]))) \<or>
   (\<forall>(n', k') \<in> set (take 10 (sort_map (rev [(0x1000, 2), (0x2000, 1)]))). 2 \<le> n')"
  using hot_blocks_hottest [of rev "[(0x1000, 2), (0x2000, 1)]" "0x1000" 2] by simp

end
