(* ===== verification/Interleave.thy ===== *)
theory Interleave
  imports Prelude
begin

text \<open>
  Threads that interleave, for the plugins whose callbacks run on every virtual processor's
  thread while a control function runs on one of them. A thread runs a list of statements;
  one step executes the first statement of one thread on the shared state. The locale
  \<open>proof_outline\<close> is the rule of Owicki and Gries: an assertion for every thread, kept by the
  thread's own steps and by those of the others, holds in every reachable configuration.
\<close>

section \<open>Steps\<close>

datatype tid = Cpu nat | Control

text \<open>What a statement does: wait, crash, go on, or leave the rest for other statements.\<close>

datatype ('i, 's) outcome = Blocked | Faults fault | Next 's | Goto "'i list" 's

type_synonym ('i, 's) exec = "tid \<Rightarrow> 'i \<Rightarrow> 's \<Rightarrow> ('i, 's) outcome"
type_synonym ('i, 's) config = "'s \<times> (tid \<Rightarrow> 'i list)"

inductive interleave :: "('i, 's) exec \<Rightarrow> (tid \<Rightarrow> 'i list \<Rightarrow> bool) \<Rightarrow> ('i, 's) config \<Rightarrow> ('i, 's) config \<Rightarrow> bool"
  for exec :: "('i, 's) exec" and begins :: "tid \<Rightarrow> 'i list \<Rightarrow> bool" where
  starts: "P t = [] \<Longrightarrow> begins t p \<Longrightarrow> interleave exec begins (s, P) (s, P(t := p))"
| goes_on: "P t = i # is \<Longrightarrow> exec t i s = Next s' \<Longrightarrow> interleave exec begins (s, P) (s', P(t := is))"
| jumps: "P t = i # is \<Longrightarrow> exec t i s = Goto p s' \<Longrightarrow> interleave exec begins (s, P) (s', P(t := p))"

inductive_cases interleaveE: "interleave exec begins (s, P) c"

abbreviation interleaves ::
    "('i, 's) exec \<Rightarrow> (tid \<Rightarrow> 'i list \<Rightarrow> bool) \<Rightarrow> ('i, 's) config \<Rightarrow> ('i, 's) config \<Rightarrow> bool" where
  "interleaves exec begins \<equiv> (interleave exec begins)\<^sup>*\<^sup>*"

section \<open>A thread on its own\<close>

text \<open>A thread that is never interrupted; \<open>None\<close> when it waits, or the fuel is used up.\<close>

fun run_alone :: "('i, 's) exec \<Rightarrow> tid \<Rightarrow> nat \<Rightarrow> 'i list \<Rightarrow> 's \<Rightarrow> (fault + 's) option" where
  "run_alone exec t n [] s = Some (Inr s)"
| "run_alone exec t 0 (i # is) s = None"
| "run_alone exec t (Suc n) (i # is) s = (case exec t i s of
     Blocked \<Rightarrow> None
   | Faults f \<Rightarrow> Some (Inl f)
   | Next s' \<Rightarrow> run_alone exec t n is s'
   | Goto p s' \<Rightarrow> run_alone exec t n p s')"

lemma interleaves_step:
  assumes "interleaves exec begins (s', P(t := q)) c"
    "exec t i s = Next s' \<and> q = is \<or> exec t i s = Goto q s'"
  shows "interleaves exec begins (s, P(t := i # is)) c"
proof -
  have "interleave exec begins (s, P(t := i # is)) (s', P(t := q))"
    using assms(2) goes_on [of "P(t := i # is)" t i "is" exec s s' begins]
      jumps [of "P(t := i # is)" t i "is" exec s q s' begins] by auto
  then show ?thesis using assms(1) by (rule converse_rtranclp_into_rtranclp)
qed

lemma run_alone_interleaves:
  "run_alone exec t n p s = Some (Inr s') \<Longrightarrow> interleaves exec begins (s, P(t := p)) (s', P(t := []))"
proof (induction exec t n p s rule: run_alone.induct)
  case (3 exec t n i "is" s)
  from "3.prems" show ?case
    using "3.IH" interleaves_step [of exec begins _ P t _ _ i s "is"]
    by (auto split: outcome.splits simp del: fun_upd_apply)
qed simp_all

section \<open>Proof outlines\<close>

locale proof_outline =
  fixes exec :: "('i, 's) exec"
    and begins :: "tid \<Rightarrow> 'i list \<Rightarrow> bool"
    and asn :: "tid \<Rightarrow> 'i list \<Rightarrow> 's \<Rightarrow> bool"
    and inv :: "'s \<Rightarrow> bool"
  assumes entry: "inv s \<Longrightarrow> asn t [] s \<Longrightarrow> begins t p \<Longrightarrow> asn t p s"
    and own_next: "inv s \<Longrightarrow> asn t (i # is) s \<Longrightarrow> exec t i s = Next s' \<Longrightarrow> inv s' \<and> asn t is s'"
    and own_goto: "inv s \<Longrightarrow> asn t (i # is) s \<Longrightarrow> exec t i s = Goto p s' \<Longrightarrow> inv s' \<and> asn t p s'"
    and others: "inv s \<Longrightarrow> asn t (i # is) s \<Longrightarrow> asn u q s \<Longrightarrow> t \<noteq> u \<Longrightarrow>
      exec t i s = Next s' \<or> exec t i s = Goto p s' \<Longrightarrow> asn u q s'"
begin

definition outlined :: "('i, 's) config \<Rightarrow> bool" where
  "outlined c \<longleftrightarrow> inv (fst c) \<and> (\<forall>t. asn t (snd c t) (fst c))"

lemma outlined_step: "interleave exec begins c c' \<Longrightarrow> outlined c \<Longrightarrow> outlined c'"
proof (induction rule: interleave.induct)
  case (starts P t p s)
  then show ?case using entry [of s t p] by (auto simp: outlined_def) metis
next
  case (goes_on P t i "is" s s')
  then have "inv s" "asn t (i # is) s" "asn u (P u) s" for u
    by (auto simp: outlined_def) metis
  with goes_on(2) show ?case
    using own_next [of s t i "is" s'] others [of s t i "is" _ _ s'] by (auto simp: outlined_def)
next
  case (jumps P t i "is" s p s')
  then have "inv s" "asn t (i # is) s" "asn u (P u) s" for u
    by (auto simp: outlined_def) metis
  with jumps(2) show ?case
    using own_goto [of s t i "is" p s'] others [of s t i "is" _ _ s' p] by (auto simp: outlined_def)
qed

lemma outlined_reachable: "interleaves exec begins c c' \<Longrightarrow> outlined c \<Longrightarrow> outlined c'"
  by (induction rule: rtranclp_induct) (auto intro: outlined_step)

end

end
