(* ===== verification/Pmem_Threads.thy ===== *)
theory Pmem_Threads
  imports Interleave Pmem
begin

text \<open>
  \<open>host/pmem.cc\<close> on several threads: the memory callback runs on every processor's thread, and
  \<open>hypercall_pmem_init\<close> and \<open>hypercall_pmem_fini\<close> on the thread of the processor that made the
  system call. The callback's locks make the counter and the \<open>fprintf\<close> atomic; \<open>init\<close> and
  \<open>fini\<close> take no lock, so each of their assignments is a step.
\<close>

section \<open>Statements\<close>

text \<open>The static variables, whether the stream in \<open>pmem_file\<close> was closed, and what was done.\<close>

record pmem_shared =
  ps_state :: pmem_state
  ps_closed :: bool
  ps_log :: "effect list"

datatype pmem_stmt =
    Leave_If_Off
  | Sample
  | Filter qemu_view
  | Print qemu_view u64
  | Open_File "string option"
  | Set_Interval u32
  | Set_Attr u8
  | Zero_Count
  | Set_Mode pmem_mode
  | Test_File
  | Close_File
  | Null_File

definition pmem_set :: "(pmem_state \<Rightarrow> pmem_state) \<Rightarrow> pmem_shared \<Rightarrow> (pmem_stmt, pmem_shared) outcome" where
  "pmem_set f s = Next (s\<lparr>ps_state := f (ps_state s)\<rparr>)"

fun tid_cpu :: "tid \<Rightarrow> nat" where
  "tid_cpu (Cpu i) = i"
| "tid_cpu Control = 0"

fun pmem_exec :: "(string \<Rightarrow> bool) \<Rightarrow> (pmem_stmt, pmem_shared) exec" where
  "pmem_exec ok t Leave_If_Off s = (if pmem_mode (ps_state s) = PMEM_OFF then Goto [] s else Next s)"
| "pmem_exec ok t Sample s =
     (if pmem_int (ps_state s) = 0 then Faults Div_By_Zero
      else let s' = s\<lparr>ps_state := (ps_state s)\<lparr>pmem_count := pmem_count (ps_state s) + 1\<rparr>\<rparr>
           in if pmem_count (ps_state s) mod pmem_int (ps_state s) = 0 then Next s' else Goto [] s')"
| "pmem_exec ok t (Filter q) s =
     (let attr = access_attr (q_is_store q) (q_in_kernel q)
      in if pmem_attr (ps_state s) AND attr = attr then Next s else Goto [] s)"
| "pmem_exec ok t (Print q v) s = (case pmem_file (ps_state s) of
     None \<Rightarrow> Faults Null_Deref
   | Some f \<Rightarrow> if ps_closed s then Faults Closed_Stream
               else Next (s\<lparr>ps_log := ps_log s @ [fputs f (pmem_line (of_nat (tid_cpu t)) q v)]\<rparr>))"
| "pmem_exec ok t (Open_File name) s =
     Next (s\<lparr>ps_state := (ps_state s)\<lparr>pmem_file := (case name of
               None \<Rightarrow> Some Std_Out
             | Some n \<Rightarrow> if ok n then Some (Named n) else None)\<rparr>,
             ps_closed := False,
             ps_log := ps_log s @ (case name of None \<Rightarrow> [] | Some n \<Rightarrow> [File_Open n])\<rparr>)"
| "pmem_exec ok t (Set_Interval n) s = pmem_set (\<lambda>p. p\<lparr>pmem_int := n\<rparr>) s"
| "pmem_exec ok t (Set_Attr a) s = pmem_set (\<lambda>p. p\<lparr>pmem_attr := if a \<noteq> 0 then a else 0xF\<rparr>) s"
| "pmem_exec ok t Zero_Count s = pmem_set (\<lambda>p. p\<lparr>pmem_count := 0\<rparr>) s"
| "pmem_exec ok t (Set_Mode m) s = pmem_set (\<lambda>p. p\<lparr>pmem_mode := m\<rparr>) s"
| "pmem_exec ok t Test_File s = (case pmem_file (ps_state s) of
     None \<Rightarrow> Goto [Set_Mode PMEM_OFF] s | Some f \<Rightarrow> Next s)"
| "pmem_exec ok t Close_File s = (case pmem_file (ps_state s) of
     None \<Rightarrow> Faults Null_Deref
   | Some f \<Rightarrow> Next (if f = Std_Out then s
                     else s\<lparr>ps_closed := True, ps_log := ps_log s @ [File_Close f]\<rparr>))"
| "pmem_exec ok t Null_File s = Next (s\<lparr>ps_state := (ps_state s)\<lparr>pmem_file := None\<rparr>, ps_closed := False\<rparr>)"

section \<open>The functions as lists of statements\<close>

definition pmem_cb_prog :: "qemu_view \<Rightarrow> u64 \<Rightarrow> pmem_stmt list" where
  "pmem_cb_prog q v = [Leave_If_Off, Sample, Filter q, Print q v]"

definition pmem_init_prog :: "string option \<Rightarrow> u32 \<Rightarrow> u8 \<Rightarrow> pmem_stmt list" where
  "pmem_init_prog name n a = [Open_File name, Set_Interval n, Set_Attr a, Zero_Count, Set_Mode PMEM_ON]"

definition pmem_fini_prog :: "pmem_stmt list" where
  "pmem_fini_prog = [Test_File, Close_File, Null_File, Set_Mode PMEM_OFF]"

definition pmem_begins :: "tid \<Rightarrow> pmem_stmt list \<Rightarrow> bool" where
  "pmem_begins t p \<longleftrightarrow> (case t of
     Cpu i \<Rightarrow> (\<exists>q v. p = pmem_cb_prog q v)
   | Control \<Rightarrow> p = pmem_fini_prog \<or> (\<exists>name n a. p = pmem_init_prog name n a))"

text \<open>Uninterrupted, the statements are the operations of \<open>Pmem\<close>.\<close>

definition pmem_share :: "effect list \<Rightarrow> pmem_state \<times> effect list \<Rightarrow> pmem_shared" where
  "pmem_share es r = \<lparr>ps_state = fst r, ps_closed = False, ps_log = es @ snd r\<rparr>"

lemma pmem_cb_alone:
  "run_alone (pmem_exec ok) (Cpu i) 4 (pmem_cb_prog q v) (pmem_share es (s, [])) =
     Some (map_sum id (pmem_share es) (hypercall_pmem_cb (of_nat i) q v s))"
  by (simp add: pmem_cb_prog_def hypercall_pmem_cb_def pmem_share_def numeral_eq_Suc Let_def split: option.split)

lemma pmem_init_alone:
  "run_alone (pmem_exec ok) Control 5 (pmem_init_prog name n a) (pmem_share es (s, [])) =
     Some (Inr (pmem_share es (hypercall_pmem_init ok name n a s)))"
  by (simp add: pmem_init_prog_def hypercall_pmem_init_def pmem_share_def pmem_set_def numeral_eq_Suc)

lemma pmem_fini_alone:
  "run_alone (pmem_exec ok) Control 4 pmem_fini_prog (pmem_share es (s, [])) =
     Some (Inr (pmem_share es (hypercall_pmem_fini s)))"
  by (simp add: pmem_fini_prog_def hypercall_pmem_fini_def pmem_share_def pmem_set_def numeral_eq_Suc
      split: option.split)

section \<open>Stop against a callback\<close>

lemma pmem_cb_sampled:
  assumes "pmem_mode s = PMEM_ON" "pmem_int s \<noteq> 0" "pmem_count s mod pmem_int s = 0"
    "pmem_attr s AND access_attr (q_is_store q) (q_in_kernel q) = access_attr (q_is_store q) (q_in_kernel q)"
  shows "interleaves (pmem_exec ok) pmem_begins (pmem_share es (s, []), P(Cpu i := pmem_cb_prog q v))
    (pmem_share es (s\<lparr>pmem_count := pmem_count s + 1\<rparr>, []), P(Cpu i := [Print q v]))"
proof -
  have "interleaves (pmem_exec ok) pmem_begins
      (pmem_share es (s\<lparr>pmem_count := pmem_count s + 1\<rparr>, []), P(Cpu i := [Print q v]))
      (pmem_share es (s\<lparr>pmem_count := pmem_count s + 1\<rparr>, []), P(Cpu i := [Print q v]))" by simp
  then show ?thesis unfolding pmem_cb_prog_def
    by (rule interleaves_step [THEN interleaves_step, THEN interleaves_step])
       (use assms in \<open>simp_all add: pmem_share_def\<close>)
qed

text \<open>A callback about to print, with a \<open>fini\<close> started on another processor.\<close>

lemma pmem_print_pending:
  assumes "pmem_mode s = PMEM_ON" "pmem_int s \<noteq> 0" "pmem_count s mod pmem_int s = 0"
    "pmem_attr s AND access_attr (q_is_store q) (q_in_kernel q) = access_attr (q_is_store q) (q_in_kernel q)"
  shows "interleaves (pmem_exec ok) pmem_begins (pmem_share es (s, []), \<lambda>_. [])
    (pmem_share es (s\<lparr>pmem_count := pmem_count s + 1\<rparr>, []), (\<lambda>_. [])(Cpu i := [Print q v], Control := pmem_fini_prog))"
proof -
  let ?P = "\<lambda>_. []" and ?s = "s\<lparr>pmem_count := pmem_count s + 1\<rparr>"
  have "interleave (pmem_exec ok) pmem_begins (pmem_share es (s, []), ?P)
      (pmem_share es (s, []), ?P(Cpu i := pmem_cb_prog q v))"
    by (rule starts) (auto simp: pmem_begins_def)
  also note pmem_cb_sampled [OF assms]
  also have "interleave (pmem_exec ok) pmem_begins (pmem_share es (?s, []), ?P(Cpu i := [Print q v]))
      (pmem_share es (?s, []), ?P(Cpu i := [Print q v], Control := pmem_fini_prog))"
    by (rule starts) (simp_all add: pmem_begins_def)
  finally show ?thesis .
qed

text \<open>C15: \<open>pmem stop\<close> can crash the emulator: a callback that has passed the test of the mode and is
  about to print a sampled access is not waited for. When another processor's \<open>stop\<close> runs to
  its end in between, the callback passes a null stream to \<open>fprintf\<close>; when it has only closed
  a file, the callback writes to a closed stream.\<close>

theorem pmem_stop_race:
  assumes "pmem_mode s = PMEM_ON" "pmem_int s \<noteq> 0" "pmem_count s mod pmem_int s = 0"
    "pmem_attr s AND access_attr (q_is_store q) (q_in_kernel q) = access_attr (q_is_store q) (q_in_kernel q)"
    "pmem_file s = Some f"
  shows "(\<exists>sh P. interleaves (pmem_exec ok) pmem_begins (pmem_share [] (s, []), \<lambda>_. []) (sh, P) \<and>
      P Control = [] \<and> pmem_mode (ps_state sh) = PMEM_OFF \<and>
      P (Cpu i) = [Print q v] \<and> pmem_exec ok (Cpu i) (Print q v) sh = Faults Null_Deref) \<and>
    (f \<noteq> Std_Out \<longrightarrow> (\<exists>sh P. interleaves (pmem_exec ok) pmem_begins (pmem_share [] (s, []), \<lambda>_. []) (sh, P) \<and>
      P (Cpu i) = [Print q v] \<and> pmem_exec ok (Cpu i) (Print q v) sh = Faults Closed_Stream))"
proof (intro conjI impI)
  let ?s = "s\<lparr>pmem_count := pmem_count s + 1\<rparr>" and ?P = "(\<lambda>_. [])(Cpu i := [Print q v])"
  let ?reach = "interleaves (pmem_exec ok) pmem_begins (pmem_share [] (s, []), \<lambda>_. [])"
  note pending = pmem_print_pending [OF assms(1-4), where es = "[]" and i = i and v = v and ok = ok]
  let ?done = "pmem_share [] (hypercall_pmem_fini ?s)"
  have "?reach (?done, ?P(Control := []))"
    using pending run_alone_interleaves [OF pmem_fini_alone] by (rule rtranclp_trans)
  moreover have "pmem_mode (ps_state ?done) = PMEM_OFF" "pmem_file (ps_state ?done) = None"
    using assms(5) by (simp_all add: hypercall_pmem_fini_def pmem_share_def)
  ultimately show "\<exists>sh P. ?reach (sh, P) \<and> P Control = [] \<and> pmem_mode (ps_state sh) = PMEM_OFF \<and>
      P (Cpu i) = [Print q v] \<and> pmem_exec ok (Cpu i) (Print q v) sh = Faults Null_Deref"
    by (intro exI [of _ ?done] exI [of _ "?P(Control := [])"]) simp
next
  assume f: "f \<noteq> Std_Out"
  let ?s = "s\<lparr>pmem_count := pmem_count s + 1\<rparr>" and ?P = "(\<lambda>_. [])(Cpu i := [Print q v])"
  let ?reach = "interleaves (pmem_exec ok) pmem_begins (pmem_share [] (s, []), \<lambda>_. [])"
  let ?closed = "\<lparr>ps_state = ?s, ps_closed = True, ps_log = [File_Close f]\<rparr>"
  let ?Q = "?P(Control := [Null_File, Set_Mode PMEM_OFF])"
  have "interleaves (pmem_exec ok) pmem_begins (pmem_share [] (?s, []), ?P(Control := pmem_fini_prog)) (?closed, ?Q)"
    unfolding pmem_fini_prog_def
    by (rule interleaves_step [THEN interleaves_step], rule rtranclp.rtrancl_refl)
       (use assms(5) f in \<open>simp_all add: pmem_share_def\<close>)
  with pmem_print_pending [OF assms(1-4)] have "?reach (?closed, ?Q)" by (rule rtranclp_trans)
  then show "\<exists>sh P. ?reach (sh, P) \<and> P (Cpu i) = [Print q v] \<and>
      pmem_exec ok (Cpu i) (Print q v) sh = Faults Closed_Stream"
    using assms(5) by (intro exI [of _ ?closed] exI [of _ ?Q]) simp
qed

theorem pmem_stop_race_witness:
  "\<exists>sh P. interleaves (pmem_exec (\<lambda>_. True)) pmem_begins
      (pmem_share [] (fst (hypercall_pmem_init (\<lambda>_. True) (Some ''o'') 1 0 pmem_initial), []), \<lambda>_. []) (sh, P) \<and>
    P (Cpu 1) = [Print (demo_view True False 0) 0x1000] \<and>
    pmem_exec (\<lambda>_. True) (Cpu 1) (Print (demo_view True False 0) 0x1000) sh = Faults Closed_Stream"
  using pmem_stop_race [of "fst (hypercall_pmem_init (\<lambda>_. True) (Some ''o'') 1 0 pmem_initial)" "demo_view True False 0"
      "Named ''o''" "\<lambda>_. True" 1 "0x1000"]
  by (simp add: hypercall_pmem_init_def pmem_bits access_attr_def demo_view_def)

end
