(* ===== verification/Mcount_Threads.thy ===== *)
theory Mcount_Threads
  imports Interleave Mcount "HOL-Library.Sublist"
begin

text \<open>
  \<open>host/mcount.cc\<close> on several threads: the memory callback runs on every processor's thread and
  the control operations on one of them. \<open>flush_mtx\<close> is a \<open>std::shared_mutex\<close>, which a report
  takes alone and the counting and \<open>fini\<close> take shared; \<open>init\<close> takes no lock. The loops over
  counters and tags are one statement each.
\<close>

section \<open>Statements\<close>

text \<open>
  The static variables, whether the stream in \<open>cfg.report\<close> was closed, who holds the mutex and
  what was done.
\<close>

record mcount_shared =
  ms_state :: mcount_state
  ms_closed :: bool
  ms_owner :: "tid option"
  ms_sharers :: "tid set"
  ms_log :: "effect list"

datatype mcount_stmt =
    Leave_If_Off
  | Count_Access qemu_view
  | Lock_Unique
  | Check_Again
  | Put string
  | Flush_Kernel
  | Flush_User
  | Unlock_Unique
  | Count_Io qemu_view
  | Lock_Shared
  | Count_Bin qemu_view
  | Unlock_Shared
  | Open_Report "string option"
  | Set_Total_Mem u64
  | Set_Mem_Bin u32
  | Set_Acc_Bin u32
  | Set_Mode mcount_mode
  | Put_Config "string option"
  | Clear_Kernel u64 u32
  | Clear_User u64 u32
  | Clear_Tags
  | Zero_Acc
  | Zero_Io
  | Test_Report
  | Put_Tags
  | Put_Counts
  | Close_Report
  | Null_Report

section \<open>The functions as lists of statements\<close>

definition mcount_tally_prog :: "qemu_view \<Rightarrow> mcount_stmt list" where
  "mcount_tally_prog q = [Count_Io q, Lock_Shared, Count_Bin q, Unlock_Shared]"

definition mcount_cb_prog :: "qemu_view \<Rightarrow> mcount_stmt list" where
  "mcount_cb_prog q =
     [Leave_If_Off, Count_Access q, Lock_Unique, Check_Again, Put ''K = {'', Flush_Kernel,
      Put ''}; U = {'', Flush_User, Put (''}'' @ newline), Unlock_Unique] @ mcount_tally_prog q"

definition mcount_init_prog :: "string option \<Rightarrow> u64 \<Rightarrow> u32 \<Rightarrow> u32 \<Rightarrow> mcount_stmt list" where
  "mcount_init_prog rep ram mbin abin =
     [Open_Report rep, Set_Total_Mem ram, Set_Mem_Bin mbin, Set_Acc_Bin abin, Set_Mode MCOUNT_ON,
      Put_Config rep, Clear_Kernel ram mbin, Clear_User ram mbin, Clear_Tags, Zero_Acc, Zero_Io]"

definition mcount_fini_prog :: "mcount_stmt list" where
  "mcount_fini_prog =
     [Set_Mode MCOUNT_OFF, Test_Report, Lock_Shared, Put_Tags, Put_Counts, Close_Report, Null_Report,
      Unlock_Shared]"

section \<open>Steps\<close>

definition mcount_set :: "(mcount_state \<Rightarrow> mcount_state) \<Rightarrow> mcount_shared \<Rightarrow> (mcount_stmt, mcount_shared) outcome" where
  "mcount_set f s = Next (s\<lparr>ms_state := f (ms_state s)\<rparr>)"

definition mcount_set_cfg ::
    "(mcount_config \<Rightarrow> mcount_config) \<Rightarrow> mcount_shared \<Rightarrow> (mcount_stmt, mcount_shared) outcome" where
  "mcount_set_cfg f = mcount_set (\<lambda>m. m\<lparr>cfg := f (cfg m)\<rparr>)"

text \<open>\<open>fprintf\<close> to \<open>cfg.report\<close>.\<close>

definition report_put ::
    "(out_file \<Rightarrow> effect list) \<Rightarrow> mcount_shared \<Rightarrow> (mcount_stmt, mcount_shared) outcome" where
  "report_put es s = (case mc_report (cfg (ms_state s)) of
     None \<Rightarrow> Faults Null_Deref
   | Some f \<Rightarrow> if ms_closed s then Faults Closed_Stream else Next (s\<lparr>ms_log := ms_log s @ es f\<rparr>))"

text \<open>\<open>flush\<close> writes to the report only when there is a core.\<close>

definition flush_step ::
    "(mcount_state \<Rightarrow> u32 list list) \<Rightarrow> (u32 list list \<Rightarrow> mcount_state \<Rightarrow> mcount_state) \<Rightarrow> mcount_shared
       \<Rightarrow> (mcount_stmt, mcount_shared) outcome" where
  "flush_step get put s = (case mcount_flush (ncores (ms_state s)) (get (ms_state s)) of
     Inl f \<Rightarrow> Faults f
   | Inr (maps, txt) \<Rightarrow>
       let s' = s\<lparr>ms_state := put maps (ms_state s)\<rparr>
       in if ncores (ms_state s) = 0 then Next s' else report_put (\<lambda>f. [fputs f txt]) s')"

definition clear_step ::
    "u64 \<Rightarrow> u32 \<Rightarrow> (mcount_state \<Rightarrow> u32 list list) \<Rightarrow> (u32 list list \<Rightarrow> mcount_state \<Rightarrow> mcount_state)
       \<Rightarrow> mcount_shared \<Rightarrow> (mcount_stmt, mcount_shared) outcome" where
  "clear_step ram mbin get put s = (case clear_maps (ncores (ms_state s)) ram mbin (get (ms_state s)) of
     Inl f \<Rightarrow> Faults f | Inr maps \<Rightarrow> mcount_set (put maps) s)"

fun mcount_exec :: "(string \<Rightarrow> bool) \<Rightarrow> (mcount_stmt, mcount_shared) exec" where
  "mcount_exec ok t Leave_If_Off s = (if mc_mode (cfg (ms_state s)) = MCOUNT_OFF then Goto [] s else Next s)"
| "mcount_exec ok t (Count_Access q) s =
     (let m = ms_state s; s' = s\<lparr>ms_state := m\<lparr>acc_cnt := acc_cnt m + 1\<rparr>\<rparr> in
      if acc_bin (cfg m) = 0 then Faults Div_By_Zero
      else if (acc_cnt m + 1) mod ucast (acc_bin (cfg m)) = 0 then Next s' else Goto (mcount_tally_prog q) s')"
| "mcount_exec ok t Lock_Unique s =
     (if ms_owner s = None \<and> ms_sharers s = {} then Next (s\<lparr>ms_owner := Some t\<rparr>) else Blocked)"
| "mcount_exec ok t Check_Again s =
     (if mc_mode (cfg (ms_state s)) = MCOUNT_OFF then Goto [] (s\<lparr>ms_owner := None\<rparr>) else Next s)"
| "mcount_exec ok t (Put txt) s = report_put (\<lambda>f. [fputs f txt]) s"
| "mcount_exec ok t Flush_Kernel s = flush_step kmaps (\<lambda>x m. m\<lparr>kmaps := x\<rparr>) s"
| "mcount_exec ok t Flush_User s = flush_step umaps (\<lambda>x m. m\<lparr>umaps := x\<rparr>) s"
| "mcount_exec ok t Unlock_Unique s = Next (s\<lparr>ms_owner := None\<rparr>)"
| "mcount_exec ok t (Count_Io q) s =
     (if q_is_io q then Goto [] (s\<lparr>ms_state := (ms_state s)\<lparr>acc_io_cnt := acc_io_cnt (ms_state s) + 1\<rparr>\<rparr>) else Next s)"
| "mcount_exec ok t Lock_Shared s =
     (if ms_owner s = None then Next (s\<lparr>ms_sharers := insert t (ms_sharers s)\<rparr>) else Blocked)"
| "mcount_exec ok t (Count_Bin q) s =
     (case mcount_count (case t of Cpu i \<Rightarrow> i | Control \<Rightarrow> 0) (q\<lparr>q_is_io := False\<rparr>) (ms_state s) of
        Inl f \<Rightarrow> Faults f | Inr m \<Rightarrow> Next (s\<lparr>ms_state := m\<rparr>))"
| "mcount_exec ok t Unlock_Shared s = Next (s\<lparr>ms_sharers := ms_sharers s - {t}\<rparr>)"
| "mcount_exec ok t (Open_Report rep) s =
     Next (s\<lparr>ms_state := (ms_state s)\<lparr>cfg := (cfg (ms_state s))\<lparr>mc_report := (case rep of
               None \<Rightarrow> Some Std_Out
             | Some n \<Rightarrow> if ok n then Some (Named n) else None)\<rparr>\<rparr>,
             ms_closed := False,
             ms_log := ms_log s @ (case rep of None \<Rightarrow> [] | Some n \<Rightarrow> [File_Open n])\<rparr>)"
| "mcount_exec ok t (Set_Total_Mem n) s = mcount_set_cfg (\<lambda>c. c\<lparr>total_mem := n\<rparr>) s"
| "mcount_exec ok t (Set_Mem_Bin n) s = mcount_set_cfg (\<lambda>c. c\<lparr>mem_bin := n\<rparr>) s"
| "mcount_exec ok t (Set_Acc_Bin n) s = mcount_set_cfg (\<lambda>c. c\<lparr>acc_bin := n\<rparr>) s"
| "mcount_exec ok t (Set_Mode m) s = mcount_set_cfg (\<lambda>c. c\<lparr>mc_mode := m\<rparr>) s"
| "mcount_exec ok t (Put_Config rep) s =
     report_put (\<lambda>f. [fputs f (cfg_line rep (cfg (ms_state s)) (ncores (ms_state s)))]) s"
| "mcount_exec ok t (Clear_Kernel ram mbin) s = clear_step ram mbin kmaps (\<lambda>x m. m\<lparr>kmaps := x\<rparr>) s"
| "mcount_exec ok t (Clear_User ram mbin) s = clear_step ram mbin umaps (\<lambda>x m. m\<lparr>umaps := x\<rparr>) s"
| "mcount_exec ok t Clear_Tags s = mcount_set (\<lambda>m. m\<lparr>tags := []\<rparr>) s"
| "mcount_exec ok t Zero_Acc s = mcount_set (\<lambda>m. m\<lparr>acc_cnt := 0\<rparr>) s"
| "mcount_exec ok t Zero_Io s = mcount_set (\<lambda>m. m\<lparr>acc_io_cnt := 0\<rparr>) s"
| "mcount_exec ok t Test_Report s = (if mc_report (cfg (ms_state s)) = None then Goto [] s else Next s)"
| "mcount_exec ok t Put_Tags s =
     report_put (\<lambda>f. [fputs f ''tags = {''] @ map (\<lambda>x. fputs f (tag_text x)) (tags (ms_state s)) @
                     [fputs f (''}'' @ newline)]) s"
| "mcount_exec ok t Put_Counts s =
     report_put (\<lambda>f. [fputs f (''acc_cnt = '' @ show_u (unat (acc_cnt (ms_state s))) @ ''; acc_io_cnt = '' @
                              show_u (unat (acc_io_cnt (ms_state s))) @ newline)]) s"
| "mcount_exec ok t Close_Report s = (case mc_report (cfg (ms_state s)) of
     None \<Rightarrow> Faults Null_Deref
   | Some f \<Rightarrow> if f = Std_Out then Next s
               else if ms_closed s then Faults Closed_Stream
               else Next (s\<lparr>ms_closed := True, ms_log := ms_log s @ [File_Close f]\<rparr>))"
| "mcount_exec ok t Null_Report s =
     Next (s\<lparr>ms_state := (ms_state s)\<lparr>cfg := (cfg (ms_state s))\<lparr>mc_report := None\<rparr>\<rparr>, ms_closed := False\<rparr>)"

definition mcount_begins :: "(string \<Rightarrow> bool) \<Rightarrow> tid \<Rightarrow> mcount_stmt list \<Rightarrow> bool" where
  "mcount_begins ok t p \<longleftrightarrow> (case t of
     Cpu i \<Rightarrow> (\<exists>q. p = mcount_cb_prog q)
   | Control \<Rightarrow> p = mcount_fini_prog \<or>
       (\<exists>rep ram mbin abin. p = mcount_init_prog rep ram mbin abin \<and> (\<forall>n. rep = Some n \<longrightarrow> ok n)))"

section \<open>Uninterrupted, the statements are the operations of \<open>Mcount\<close>\<close>

definition mcount_share :: "effect list \<Rightarrow> mcount_state \<times> effect list \<Rightarrow> mcount_shared" where
  "mcount_share es r = \<lparr>ms_state = fst r, ms_closed = False, ms_owner = None, ms_sharers = {}, ms_log = es @ snd r\<rparr>"

lemma mcount_fini_alone:
  "run_alone (mcount_exec ok) Control 8 mcount_fini_prog (mcount_share es (s, [])) =
     Some (Inr (mcount_share es (hypercall_mcount_fini s)))"
  by (simp add: mcount_fini_prog_def hypercall_mcount_fini_def mcount_share_def mcount_set_def mcount_set_cfg_def
      report_put_def numeral_eq_Suc Let_def split: option.split)

lemma mcount_init_alone:
  "run_alone (mcount_exec ok) Control 11 (mcount_init_prog rep ram mbin abin) (mcount_share es (s, [])) =
     Some (map_sum id (mcount_share es) (hypercall_mcount_init ok rep ram mbin abin s))"
  by (cases "cfg s") (simp add: mcount_init_prog_def hypercall_mcount_init_def mcount_share_def mcount_set_def
      mcount_set_cfg_def report_put_def clear_step_def numeral_eq_Suc Let_def bind_res_def split: option.split sum.split)

text \<open>The callback writes the report in five pieces where \<open>hypercall_mcount_cb\<close> has one.\<close>

fun written :: "effect list \<Rightarrow> string" where
  "written [] = []"
| "written (Stdout t # es) = t @ written es"
| "written (File_Write f t # es) = t @ written es"
| "written (e # es) = written es"

lemma written_append: "written (es @ fs) = written es @ written fs"
  by (induction es rule: written.induct) simp_all

lemma written_fputs: "written (fputs f t # es) = t @ written es"
  by (cases f) (simp_all add: fputs_def)

lemma flush_no_cores: "mcount_flush 0 maps = Inr (maps, [])"
  by (simp add: mcount_flush_def)

definition same_but_text :: "effect list \<Rightarrow> fault + (mcount_state \<times> effect list) \<Rightarrow> fault + mcount_shared \<Rightarrow> bool" where
  "same_but_text es r r' \<longleftrightarrow> (case r of
     Inl f \<Rightarrow> r' = Inl f
   | Inr (s, fs) \<Rightarrow> \<exists>gs. r' = Inr (mcount_share es (s, gs)) \<and> written gs = written fs)"

lemma mcount_tally_alone:
  "\<exists>r. run_alone (mcount_exec ok) (Cpu i) (4 + n) (mcount_tally_prog q) (mcount_share es (s, gs)) = Some r \<and>
    same_but_text es (bind_res (mcount_count i q s) (\<lambda>s'. Inr (s', gs))) r"
  by (auto simp: mcount_tally_prog_def mcount_count_def mcount_share_def same_but_text_def numeral_eq_Suc bind_res_def
      split: sum.split)

lemma mcount_cb_alone:
  "\<exists>r. run_alone (mcount_exec ok) (Cpu i) 14 (mcount_cb_prog q) (mcount_share es (s, [])) = Some r \<and>
    same_but_text es (hypercall_mcount_cb i q s) r"
proof -
  let ?s = "s\<lparr>acc_cnt := acc_cnt s + 1\<rparr>"
  consider (off) "mc_mode (cfg s) = MCOUNT_OFF" | (zero) "mc_mode (cfg s) = MCOUNT_ON" "acc_bin (cfg s) = 0"
    | (count) "mc_mode (cfg s) = MCOUNT_ON" "acc_bin (cfg s) \<noteq> 0" "(acc_cnt s + 1) mod ucast (acc_bin (cfg s)) \<noteq> 0"
    | (flush) "mc_mode (cfg s) = MCOUNT_ON" "acc_bin (cfg s) \<noteq> 0" "(acc_cnt s + 1) mod ucast (acc_bin (cfg s)) = 0"
    using mcount_mode.exhaust [of "mc_mode (cfg s)"] by metis
  then show ?thesis
  proof cases
    case count
    with mcount_tally_alone [of ok i 8 q es ?s "[]"] show ?thesis
      by (simp add: mcount_cb_prog_def hypercall_mcount_cb_def mcount_share_def numeral_eq_Suc Let_def)
  next
    case flush
    consider (null) "mc_report (cfg s) = None" | (k) f where "mc_report (cfg s) = Some f" "\<exists>e. mcount_flush (ncores s) (kmaps s) = Inl e"
      | (u) f k kt where "mc_report (cfg s) = Some f" "mcount_flush (ncores s) (kmaps s) = Inr (k, kt)"
          "\<exists>e. mcount_flush (ncores s) (umaps s) = Inl e"
      | (ok) f k kt u ut where "mc_report (cfg s) = Some f" "mcount_flush (ncores s) (kmaps s) = Inr (k, kt)"
          "mcount_flush (ncores s) (umaps s) = Inr (u, ut)"
      by (metis option.exhaust sum.exhaust surj_pair)
    then show ?thesis
    proof cases
      case ok
      let ?s' = "?s\<lparr>kmaps := k, umaps := u\<rparr>"
      let ?gs = "[fputs f ''K = {''] @ (if ncores s = 0 then [] else [fputs f kt]) @ [fputs f ''}; U = {''] @
        (if ncores s = 0 then [] else [fputs f ut]) @ [fputs f (''}'' @ newline)]"
      have "ncores s = 0 \<Longrightarrow> kt = [] \<and> ut = []" using ok(2,3) by (simp add: flush_no_cores)
      then have "written ?gs = written [fputs f (''K = {'' @ kt @ ''}; U = {'' @ ut @ ''}'' @ newline)]"
        by (simp add: written_fputs)
      moreover have "run_alone (mcount_exec ok) (Cpu i) 14 (mcount_cb_prog q) (mcount_share es (s, [])) =
          run_alone (mcount_exec ok) (Cpu i) (4 + 0) (mcount_tally_prog q) (mcount_share es (?s', ?gs))"
        using flush ok by (cases "ncores s = 0")
          (auto simp: mcount_cb_prog_def mcount_share_def numeral_eq_Suc Let_def report_put_def flush_step_def flush_no_cores)
      ultimately show ?thesis
        using flush ok mcount_tally_alone [of ok i 0 q es ?s' ?gs]
        by (auto simp: hypercall_mcount_cb_def mcount_report_def same_but_text_def bind_res_def Let_def split: sum.splits)
    qed (use flush in \<open>auto simp: mcount_cb_prog_def hypercall_mcount_cb_def mcount_report_def mcount_share_def
      same_but_text_def numeral_eq_Suc Let_def report_put_def flush_step_def\<close>)
  qed (simp_all add: mcount_cb_prog_def hypercall_mcount_cb_def mcount_share_def same_but_text_def numeral_eq_Suc Let_def)
qed

section \<open>The proof outline\<close>

text \<open>Which programs hold the mutex, are between \<open>Check_Again\<close> and its release, or use the report.\<close>

definition owns :: "mcount_stmt list \<Rightarrow> bool" where
  "owns p \<longleftrightarrow> Unlock_Unique \<in> set p \<and> Lock_Unique \<notin> set p"

definition shares :: "mcount_stmt list \<Rightarrow> bool" where
  "shares p \<longleftrightarrow> Unlock_Shared \<in> set p \<and> Lock_Shared \<notin> set p"

definition reporting :: "mcount_stmt list \<Rightarrow> bool" where
  "reporting p \<longleftrightarrow> owns p \<and> Check_Again \<notin> set p"

definition stopping :: "mcount_stmt list \<Rightarrow> bool" where
  "stopping p \<longleftrightarrow> Null_Report \<in> set p \<and> Set_Mode MCOUNT_OFF \<notin> set p"

definition has_report :: "mcount_stmt list \<Rightarrow> bool" where
  "has_report p \<longleftrightarrow> Null_Report \<in> set p \<and> Test_Report \<notin> set p \<or>
     Zero_Io \<in> set p \<and> (\<forall>rep. Open_Report rep \<notin> set p)"

definition alive :: "mcount_shared \<Rightarrow> bool" where
  "alive s \<longleftrightarrow> mc_report (cfg (ms_state s)) \<noteq> None \<and> \<not> ms_closed s"

definition mcount_inv :: "mcount_shared \<Rightarrow> bool" where
  "mcount_inv s \<longleftrightarrow> (ms_owner s \<noteq> None \<longrightarrow> ms_sharers s = {}) \<and> (mc_mode (cfg (ms_state s)) = MCOUNT_ON \<longrightarrow> alive s)"

definition cpu_local :: "tid \<Rightarrow> mcount_stmt list \<Rightarrow> mcount_shared \<Rightarrow> bool" where
  "cpu_local t p s \<longleftrightarrow> (ms_owner s = Some t \<longleftrightarrow> owns p) \<and> (t \<in> ms_sharers s \<longleftrightarrow> shares p) \<and> (reporting p \<longrightarrow> alive s)"

definition cpu_asn :: "tid \<Rightarrow> mcount_stmt list \<Rightarrow> mcount_shared \<Rightarrow> bool" where
  "cpu_asn t p s \<longleftrightarrow> (\<exists>q. suffix p (mcount_cb_prog q)) \<and> cpu_local t p s"

definition control_prog :: "(string \<Rightarrow> bool) \<Rightarrow> mcount_stmt list \<Rightarrow> bool" where
  "control_prog ok p \<longleftrightarrow> suffix p mcount_fini_prog \<or>
     (\<exists>rep ram mbin abin. suffix p (mcount_init_prog rep ram mbin abin) \<and> (\<forall>n. rep = Some n \<longrightarrow> ok n))"

definition control_local :: "mcount_stmt list \<Rightarrow> mcount_shared \<Rightarrow> bool" where
  "control_local p s \<longleftrightarrow> ms_owner s \<noteq> Some Control \<and> (Control \<in> ms_sharers s \<longleftrightarrow> shares p) \<and>
     (ms_closed s \<longrightarrow> (\<exists>rest. p = Null_Report # rest)) \<and>
     (stopping p \<longrightarrow> mc_mode (cfg (ms_state s)) = MCOUNT_OFF) \<and>
     (has_report p \<longrightarrow> mc_report (cfg (ms_state s)) \<noteq> None)"

definition mcount_asn :: "(string \<Rightarrow> bool) \<Rightarrow> tid \<Rightarrow> mcount_stmt list \<Rightarrow> mcount_shared \<Rightarrow> bool" where
  "mcount_asn ok t p s = (case t of Cpu i \<Rightarrow> cpu_asn t p s | Control \<Rightarrow> control_prog ok p \<and> control_local p s)"

lemmas mcount_progs = mcount_cb_prog_def mcount_tally_prog_def mcount_fini_prog_def mcount_init_prog_def
lemmas mcount_phases = owns_def shares_def reporting_def stopping_def has_report_def

lemma suffix_cons: "suffix p (x # xs) \<longleftrightarrow> p = x # xs \<or> suffix p xs"
  by (auto simp: suffix_Cons)

text \<open>What the statements change of the mutex and of the report.\<close>

definition same_report :: "mcount_shared \<Rightarrow> mcount_shared \<Rightarrow> bool" where
  "same_report s s' \<longleftrightarrow> mc_mode (cfg (ms_state s')) = mc_mode (cfg (ms_state s)) \<and>
     mc_report (cfg (ms_state s')) = mc_report (cfg (ms_state s)) \<and> ms_closed s' = ms_closed s"

definition same_lock :: "mcount_shared \<Rightarrow> mcount_shared \<Rightarrow> bool" where
  "same_lock s s' \<longleftrightarrow> ms_owner s' = ms_owner s \<and> ms_sharers s' = ms_sharers s"

definition moves_like :: "tid \<Rightarrow> mcount_stmt \<Rightarrow> mcount_shared \<Rightarrow> mcount_shared \<Rightarrow> bool" where
  "moves_like t st s s' = (case st of
     Lock_Unique \<Rightarrow> same_report s s' \<and> ms_owner s = None \<and> ms_sharers s = {} \<and> ms_owner s' = Some t \<and> ms_sharers s' = {}
   | Unlock_Unique \<Rightarrow> same_report s s' \<and> ms_owner s' = None \<and> ms_sharers s' = ms_sharers s
   | Check_Again \<Rightarrow> same_report s s' \<and> ms_sharers s' = ms_sharers s \<and>
       ms_owner s' = (if mc_mode (cfg (ms_state s)) = MCOUNT_OFF then None else ms_owner s)
   | Lock_Shared \<Rightarrow> same_report s s' \<and> ms_owner s = None \<and> ms_owner s' = None \<and> ms_sharers s' = insert t (ms_sharers s)
   | Unlock_Shared \<Rightarrow> same_report s s' \<and> ms_owner s' = ms_owner s \<and> ms_sharers s' = ms_sharers s - {t}
   | Set_Mode m \<Rightarrow> same_lock s s' \<and> mc_mode (cfg (ms_state s')) = m \<and>
       mc_report (cfg (ms_state s')) = mc_report (cfg (ms_state s)) \<and> ms_closed s' = ms_closed s
   | Open_Report rep \<Rightarrow> same_lock s s' \<and> mc_mode (cfg (ms_state s')) = mc_mode (cfg (ms_state s)) \<and> \<not> ms_closed s'
   | Close_Report \<Rightarrow> same_lock s s' \<and> mc_mode (cfg (ms_state s')) = mc_mode (cfg (ms_state s)) \<and>
       mc_report (cfg (ms_state s')) = mc_report (cfg (ms_state s))
   | Null_Report \<Rightarrow> same_lock s s' \<and> mc_mode (cfg (ms_state s')) = mc_mode (cfg (ms_state s)) \<and> \<not> ms_closed s'
   | _ \<Rightarrow> same_report s s' \<and> same_lock s s')"

lemma mcount_count_cfg: "mcount_count i q m = Inr m' \<Longrightarrow> cfg m' = cfg m"
  by (auto simp: mcount_count_def bind_res_eq_Inr split: if_splits)

lemma moves_like:
  "mcount_exec ok t st s = Next s' \<or> mcount_exec ok t st s = Goto p s' \<Longrightarrow> moves_like t st s s'"
  by (cases st)
     (auto simp: moves_like_def same_report_def same_lock_def report_put_def flush_step_def clear_step_def
       mcount_set_def mcount_set_cfg_def Let_def dest: mcount_count_cfg
       split: if_splits option.splits sum.splits)

lemma goto_target:
  "mcount_exec ok t st s = Goto p s' \<Longrightarrow>
    (case st of
       Leave_If_Off \<Rightarrow> p = [] | Check_Again \<Rightarrow> p = [] \<and> mc_mode (cfg (ms_state s)) = MCOUNT_OFF
     | Count_Access q \<Rightarrow> p = mcount_tally_prog q
     | Count_Io q \<Rightarrow> p = [] | Test_Report \<Rightarrow> p = [] | _ \<Rightarrow> False)"
  by (cases st)
     (auto simp: report_put_def flush_step_def clear_step_def mcount_set_def mcount_set_cfg_def Let_def
       split: if_splits option.splits sum.splits)

lemmas mcount_moves = moves_like_def same_report_def same_lock_def

text \<open>How one statement of a callback moves its phase.\<close>

definition control_stmt :: "mcount_stmt \<Rightarrow> bool" where
  "control_stmt st \<longleftrightarrow> (case st of
     Set_Mode m \<Rightarrow> True | Open_Report rep \<Rightarrow> True | Close_Report \<Rightarrow> True | Null_Report \<Rightarrow> True
   | Test_Report \<Rightarrow> True | _ \<Rightarrow> False)"

lemma cpu_phase:
  assumes "suffix (st # rest) (mcount_cb_prog q)"
  shows "owns rest = (if st = Lock_Unique then True else if st = Unlock_Unique then False else owns (st # rest))"
    and "shares rest = (if st = Lock_Shared then True else if st = Unlock_Shared then False else shares (st # rest))"
    and "reporting rest = (if st = Check_Again then True else if st = Unlock_Unique then False else reporting (st # rest))"
    and "st \<in> {Check_Again, Unlock_Unique} \<Longrightarrow> owns (st # rest)"
    and "owns (st # rest) \<Longrightarrow> \<not> shares (st # rest)"
    and "owns (st # rest) \<Longrightarrow> st \<noteq> Lock_Shared \<and> st \<noteq> Unlock_Shared \<and> st \<noteq> Lock_Unique"
    and "\<not> control_stmt st"
    and "rest \<noteq> [] \<or> \<not> owns (st # rest)"
  using assms unfolding mcount_progs append.simps suffix_cons
  by (elim disjE; simp add: mcount_phases control_stmt_def)+

lemma cpu_jump:
  assumes "suffix (st # rest) (mcount_cb_prog q)"
  shows "st = Leave_If_Off \<or> st = Count_Io q' \<or> st = Count_Access q' \<Longrightarrow> \<not> owns (st # rest) \<and> \<not> shares (st # rest)"
    and "st = Count_Access q' \<Longrightarrow> q' = q"
  using assms unfolding mcount_progs append.simps suffix_cons
  by (elim disjE; simp add: mcount_phases)+

lemma idle_phase:
  "\<not> owns []" "\<not> shares []" "\<not> reporting []" "\<not> stopping []" "\<not> has_report []"
  "\<not> owns (mcount_tally_prog q)" "\<not> shares (mcount_tally_prog q)" "\<not> reporting (mcount_tally_prog q)"
  by (simp_all add: mcount_phases mcount_tally_prog_def)

lemma cpu_next:
  assumes inv: "mcount_inv s" and asn: "cpu_asn t (st # rest) s" and step: "mcount_exec ok t st s = Next s'"
  shows "mcount_inv s' \<and> cpu_asn t rest s'"
proof -
  from asn obtain q where q: "suffix (st # rest) (mcount_cb_prog q)" and l: "cpu_local t (st # rest) s"
    by (auto simp: cpu_asn_def)
  note m = moves_like [OF disjI1 [OF step]] and ph = cpu_phase [OF q]
  have again: "st = Check_Again \<Longrightarrow> mc_mode (cfg (ms_state s)) = MCOUNT_ON"
    using step by (cases "mc_mode (cfg (ms_state s))") auto
  have "mcount_inv s' \<and> cpu_local t rest s'"
    using l m inv ph again unfolding cpu_local_def mcount_inv_def alive_def
    by (cases st) (simp_all add: mcount_moves control_stmt_def)
  then show ?thesis using suffix_ConsD [OF q] by (auto simp: cpu_asn_def)
qed

lemma cpu_goto:
  assumes inv: "mcount_inv s" and asn: "cpu_asn t (st # rest) s" and step: "mcount_exec ok t st s = Goto p s'"
  shows "mcount_inv s' \<and> cpu_asn t p s'"
proof -
  from asn obtain q where q: "suffix (st # rest) (mcount_cb_prog q)" and l: "cpu_local t (st # rest) s"
    by (auto simp: cpu_asn_def)
  note m = moves_like [OF disjI2 [OF step]] and g = goto_target [OF step]
  have tally: "suffix (mcount_tally_prog q) (mcount_cb_prog q)" by (simp add: mcount_cb_prog_def suffix_def)
  have "p = [] \<or> p = mcount_tally_prog q" using g cpu_jump(2) [OF q] by (cases st) auto
  moreover have "mcount_inv s' \<and> cpu_local t p s'"
    using l m inv g cpu_jump(1) [OF q] cpu_phase(4,7) [OF q]
    unfolding cpu_local_def mcount_inv_def alive_def
    by (cases st) (auto simp: mcount_moves idle_phase control_stmt_def cpu_phase(5) [OF q])
  ultimately show ?thesis using tally by (auto simp: cpu_asn_def)
qed

lemma control_phase:
  assumes "control_prog ok (st # rest)"
  shows "control_prog ok rest"
    and "\<not> owns (st # rest)" "st \<notin> {Lock_Unique, Unlock_Unique, Check_Again, Leave_If_Off, Count_Access q, Count_Io q}"
    and "shares rest = (if st = Lock_Shared then True else if st = Unlock_Shared then False else shares (st # rest))"
    and "stopping rest \<Longrightarrow> st = Set_Mode MCOUNT_OFF \<or> stopping (st # rest) \<and> (\<forall>m. st \<noteq> Set_Mode m)"
    and "has_report rest \<Longrightarrow> st = Test_Report \<or> (\<exists>rep. st = Open_Report rep) \<or> has_report (st # rest) \<and> st \<noteq> Null_Report"
    and "st = Close_Report \<or> st = Null_Report \<Longrightarrow> shares (st # rest) \<and> stopping (st # rest) \<and> has_report (st # rest)"
    and "st = Close_Report \<Longrightarrow> \<exists>p. rest = Null_Report # p"
    and "st = Set_Mode MCOUNT_ON \<Longrightarrow> has_report (st # rest)"
    and "st = Open_Report (Some n) \<Longrightarrow> ok n"
    and "st = Test_Report \<Longrightarrow> \<not> shares (st # rest)"
proof -
  show "control_prog ok rest" using assms unfolding control_prog_def by (meson suffix_ConsD)
qed (use assms in \<open>unfold control_prog_def mcount_progs append.simps suffix_cons; elim disjE exE conjE;
  simp add: mcount_phases\<close>)+

lemma control_next:
  assumes inv: "mcount_inv s" and p: "control_prog ok (st # rest)" and l: "control_local (st # rest) s"
    and step: "mcount_exec ok Control st s = Next s'"
  shows "mcount_inv s' \<and> control_local rest s'"
proof -
  note m = moves_like [OF disjI1 [OF step]] and ph = control_phase(3-11) [OF p]
  have opened: "st = Open_Report rep \<Longrightarrow> mc_report (cfg (ms_state s')) \<noteq> None" for rep
    using step ph(8) by (cases rep) auto
  have tested: "st = Test_Report \<Longrightarrow> mc_report (cfg (ms_state s)) \<noteq> None"
    using step by (auto split: if_splits)
  show ?thesis
    using l m inv ph opened tested unfolding control_local_def mcount_inv_def alive_def
    by (cases st) (simp_all add: mcount_moves, blast)
qed

lemma control_goto:
  assumes inv: "mcount_inv s" and p: "control_prog ok (st # rest)" and l: "control_local (st # rest) s"
    and step: "mcount_exec ok Control st s = Goto p s'"
  shows "mcount_inv s' \<and> p = [] \<and> control_local p s'"
proof -
  have "st = Test_Report \<and> p = []"
    using goto_target [OF step] control_phase(3) [OF p] by (cases st) auto
  then show ?thesis
    using moves_like [OF disjI2 [OF step]] l inv control_phase(11) [OF p]
    by (auto simp: mcount_moves control_local_def mcount_inv_def alive_def idle_phase)
qed

text \<open>The statements of one thread and the assertions of another.\<close>

lemma lock_others:
  assumes "mcount_exec ok t st s = Next s' \<or> mcount_exec ok t st s = Goto p s'" "t \<noteq> u"
    "st \<in> {Check_Again, Unlock_Unique} \<Longrightarrow> ms_owner s = Some t"
  shows "(ms_owner s' = Some u \<longleftrightarrow> ms_owner s = Some u) \<and> (u \<in> ms_sharers s' \<longleftrightarrow> u \<in> ms_sharers s)"
  using moves_like [OF assms(1)] assms(2,3) by (cases st) (auto simp: mcount_moves)

lemma cpu_others:
  assumes asn: "cpu_asn t (st # rest) s" and u: "t \<noteq> u"
    and step: "mcount_exec ok t st s = Next s' \<or> mcount_exec ok t st s = Goto p s'"
  shows "cpu_local u q s \<Longrightarrow> cpu_local u q s'" "u = Control \<Longrightarrow> control_local q s \<Longrightarrow> control_local q s'"
proof -
  from asn obtain q where q: "suffix (st # rest) (mcount_cb_prog q)" and l: "cpu_local t (st # rest) s"
    by (auto simp: cpu_asn_def)
  have "same_report s s'" using moves_like [OF step] cpu_phase(7) [OF q]
    by (cases st) (simp_all add: moves_like_def control_stmt_def)
  moreover have "(ms_owner s' = Some u \<longleftrightarrow> ms_owner s = Some u) \<and> (u \<in> ms_sharers s' \<longleftrightarrow> u \<in> ms_sharers s)"
    using l cpu_phase(4) [OF q] by (intro lock_others [OF step u]) (simp add: cpu_local_def)
  ultimately show "cpu_local u q s \<Longrightarrow> cpu_local u q s'" "u = Control \<Longrightarrow> control_local q s \<Longrightarrow> control_local q s'" for q
    by (auto simp: same_report_def cpu_local_def control_local_def alive_def)
qed

lemma control_others:
  assumes inv: "mcount_inv s" and p: "control_prog ok (st # rest)" and l: "control_local (st # rest) s"
    and step: "mcount_exec ok Control st s = Next s' \<or> mcount_exec ok Control st s = Goto p' s'" and u: "u \<noteq> Control"
    and asn: "cpu_local u q s"
  shows "cpu_local u q s'"
proof -
  have lock: "(ms_owner s' = Some u \<longleftrightarrow> ms_owner s = Some u) \<and> (u \<in> ms_sharers s' \<longleftrightarrow> u \<in> ms_sharers s)"
    using control_phase(3) [OF p] u by (intro lock_others [OF step]) auto
  have "alive s'" if r: "reporting q"
  proof -
    have "ms_owner s = Some u" "alive s" using asn r by (auto simp: cpu_local_def reporting_def)
    then have "Control \<notin> ms_sharers s" using inv by (auto simp: mcount_inv_def)
    then have "st \<noteq> Close_Report" "st \<noteq> Null_Report" using l control_phase(7) [OF p] by (auto simp: control_local_def)
    moreover have "mc_report (cfg (ms_state s')) \<noteq> None" if "st = Open_Report rep" for rep
      using step that control_phase(10) [OF p] by (cases rep) auto
    ultimately show ?thesis using moves_like [OF step] \<open>alive s\<close>
      by (cases st) (simp_all add: mcount_moves alive_def)
  qed
  then show ?thesis using asn lock by (auto simp: cpu_local_def)
qed

lemma control_begins:
  assumes "mcount_begins ok Control p"
  shows "control_prog ok p" "\<not> owns p" "\<not> shares p" "\<not> stopping p" "\<not> has_report p"
proof -
  show "control_prog ok p" using assms unfolding mcount_begins_def control_prog_def by (auto intro: suffix_order.refl)
qed (use assms in \<open>auto simp: mcount_begins_def mcount_progs mcount_phases\<close>)

interpretation mcount_threads: proof_outline "mcount_exec ok" "mcount_begins ok" "mcount_asn ok" mcount_inv
proof
  fix t p s assume "mcount_inv s" "mcount_asn ok t [] s" "mcount_begins ok t p"
  then show "mcount_asn ok t p s"
    using control_begins [of ok p]
    by (cases t) (auto simp: mcount_asn_def mcount_begins_def cpu_asn_def cpu_local_def control_local_def
        mcount_phases mcount_progs)
next
  fix t i "is" s s' assume a: "mcount_inv s" "mcount_asn ok t (i # is) s" "mcount_exec ok t i s = Next s'"
  then show "mcount_inv s' \<and> mcount_asn ok t is s'"
    using cpu_next [of s t i "is" ok s'] control_next [of s ok i "is" s'] control_phase(1) [of ok i "is"]
    by (cases t) (auto simp: mcount_asn_def)
next
  fix t i "is" s p s' assume a: "mcount_inv s" "mcount_asn ok t (i # is) s" "mcount_exec ok t i s = Goto p s'"
  then show "mcount_inv s' \<and> mcount_asn ok t p s'"
    using cpu_goto [of s t i "is" ok p s'] control_goto [of s ok i "is" p s']
    by (cases t) (auto simp: mcount_asn_def control_prog_def)
next
  fix t i "is" s u q s' p
  assume "mcount_inv s" "mcount_asn ok t (i # is) s" "mcount_asn ok u q s" "t \<noteq> u"
    "mcount_exec ok t i s = Next s' \<or> mcount_exec ok t i s = Goto p s'"
  then show "mcount_asn ok u q s'"
    using cpu_others [of t i "is" s u ok s' p q] control_others [of s ok i "is" s' p u q]
    by (cases t; cases u) (simp_all add: mcount_asn_def, auto simp: cpu_asn_def)
qed

text \<open>The faults of the counters' operations are not those of a stream.\<close>

lemma counters_fault:
  "mcount_flush nc maps = Inl f \<Longrightarrow> f = Out_Of_Bounds"
  "clear_maps nc ram mbin maps = Inl f \<Longrightarrow> f = Div_By_Zero"
  "mcount_count i q m = Inl f \<Longrightarrow> f = Out_Of_Bounds \<or> f = Div_By_Zero"
proof -
  have "flush_rows is maps = Inl f \<Longrightarrow> f = Out_Of_Bounds" for "is"
    by (induction "is" arbitrary: maps) (auto simp: bind_res_def vec_at_def split: sum.splits if_splits)
  then show "mcount_flush nc maps = Inl f \<Longrightarrow> f = Out_Of_Bounds" by (simp add: mcount_flush_def)
qed (auto simp: clear_maps_def mcount_count_def bump_def bind_res_def vec_at_def Let_def split: sum.splits if_splits)

lemma stream_faults:
  assumes "mcount_exec ok t st s \<in> {Faults Null_Deref, Faults Closed_Stream}"
  shows "\<not> alive s \<and> ((\<exists>x. st = Put x) \<or> st = Flush_Kernel \<or> st = Flush_User \<or>
    (\<exists>rep. st = Put_Config rep) \<or> st = Put_Tags \<or> st = Put_Counts \<or> st = Close_Report)"
  using assms
  by (cases st) (auto simp: report_put_def flush_step_def clear_step_def mcount_set_def mcount_set_cfg_def alive_def Let_def
      dest!: counters_fault split: if_splits option.splits sum.splits)

lemma cpu_reporting:
  assumes "suffix (st # rest) (mcount_cb_prog q)"
  shows "(\<exists>x. st = Put x) \<or> st = Flush_Kernel \<or> st = Flush_User \<Longrightarrow> reporting (st # rest)"
    "st \<noteq> Put_Config rep" "st \<noteq> Put_Tags" "st \<noteq> Put_Counts"
  using assms unfolding mcount_progs append.simps suffix_cons
  by (elim disjE; simp add: mcount_phases)+

lemma control_reporting:
  assumes "control_prog ok (st # rest)"
  shows "(\<exists>rep. st = Put_Config rep) \<or> st = Put_Tags \<or> st = Put_Counts \<or> st = Close_Report \<Longrightarrow> has_report (st # rest)"
    "st \<noteq> Put x" "st \<noteq> Flush_Kernel" "st \<noteq> Flush_User"
  using assms unfolding control_prog_def mcount_progs append.simps suffix_cons
  by (elim disjE exE conjE; simp add: mcount_phases)+

definition mcount_booted :: "u32 \<Rightarrow> mcount_shared" where
  "mcount_booted n = mcount_share [] (mcount_initial\<lparr>ncores := n\<rparr>, [])"

lemma mcount_booted_outlined: "mcount_threads.outlined ok (mcount_booted n, \<lambda>_. [])"
  by (auto simp: mcount_threads.outlined_def mcount_inv_def mcount_booted_def mcount_share_def mcount_initial_def
      mcount_asn_def cpu_asn_def cpu_local_def control_prog_def control_local_def idle_phase split: tid.split)

text \<open>C14: A report never writes to a null or closed stream, however many callbacks and whatever starts
  and stops run at the same time: the second test of the mode under the mutex, the mode that
  \<open>fini\<close> clears first, and the shared lock that \<open>fini\<close> holds while it closes the file exclude
  it. The commands come one at a time and the files they name can be opened.\<close>

theorem mcount_report_safe:
  assumes "interleaves (mcount_exec ok) (mcount_begins ok) (mcount_booted n, \<lambda>_. []) (s, P)" "P t = st # rest"
  shows "mcount_exec ok t st s \<notin> {Faults Null_Deref, Faults Closed_Stream}"
proof
  assume "mcount_exec ok t st s \<in> {Faults Null_Deref, Faults Closed_Stream}"
  note f = stream_faults [OF this]
  have "mcount_asn ok t (st # rest) s"
    using mcount_threads.outlined_reachable [OF assms(1) mcount_booted_outlined] assms(2)
    by (simp add: mcount_threads.outlined_def) metis
  then show False
  proof (cases t)
    case (Cpu i)
    then obtain q where "suffix (st # rest) (mcount_cb_prog q)" "cpu_local t (st # rest) s"
      using \<open>mcount_asn ok t (st # rest) s\<close> by (auto simp: mcount_asn_def cpu_asn_def)
    then show False using f cpu_reporting [of st rest q] cpu_phase(7) [of st rest q]
      by (auto simp: cpu_local_def control_stmt_def)
  next
    case Control
    then have "control_prog ok (st # rest)" "control_local (st # rest) s"
      using \<open>mcount_asn ok t (st # rest) s\<close> by (simp_all add: mcount_asn_def)
    then show False using f control_reporting [of ok st rest] by (auto simp: control_local_def alive_def)
  qed
qed

text \<open>
  A run: \<open>start\<close>, then an access that makes a report, stopped before its first \<open>fprintf\<close> while
  \<open>stop\<close> has cleared the mode and waits for the mutex.
\<close>

lemma demo_report_pending:
  "\<exists>s. interleaves (mcount_exec (\<lambda>_. True)) (mcount_begins (\<lambda>_. True)) (mcount_booted 1, \<lambda>_. [])
      (s, (\<lambda>_. [])(Cpu 0 := drop 4 (mcount_cb_prog q), Control := drop 2 mcount_fini_prog)) \<and>
    mc_mode (cfg (ms_state s)) = MCOUNT_OFF \<and> mcount_exec (\<lambda>_. True) Control Lock_Shared s = Blocked"
proof -
  let ?ex = "mcount_exec (\<lambda>_. True)" and ?b = "mcount_begins (\<lambda>_. True)"
  let ?runs = "interleaves ?ex ?b" and ?P = "\<lambda>_ :: tid. [] :: mcount_stmt list"
  let ?ip = "mcount_init_prog None 64 16 1" and ?cp = "mcount_cb_prog q"
  obtain m es where init: "hypercall_mcount_init (\<lambda>_. True) None 64 16 1 (mcount_initial\<lparr>ncores := 1\<rparr>) = Inr (m, es)"
    and m: "mc_mode (cfg m) = MCOUNT_ON" "acc_bin (cfg m) = 1" "mc_report (cfg m) = Some Std_Out"
    by (simp add: hypercall_mcount_init_def mcount_initial_def clear_maps_def Let_def)
  let ?s = "mcount_share [] (m, es)"
  let ?s' = "?s\<lparr>ms_state := m\<lparr>acc_cnt := acc_cnt m + 1\<rparr>, ms_owner := Some (Cpu 0)\<rparr>"
  let ?off = "?s'\<lparr>ms_state := (ms_state ?s')\<lparr>cfg := (cfg m)\<lparr>mc_mode := MCOUNT_OFF\<rparr>\<rparr>\<rparr>"
  let ?Q = "?P(Cpu 0 := drop 4 ?cp)"
  have "interleave ?ex ?b (mcount_booted 1, ?P) (mcount_booted 1, ?P(Control := ?ip))"
    by (rule starts) (auto simp: mcount_begins_def)
  also have "?runs (mcount_booted 1, ?P(Control := ?ip)) (?s, ?P(Control := []))"
    using mcount_init_alone [of "\<lambda>_. True" None 64 16 1 "[]" "mcount_initial\<lparr>ncores := 1\<rparr>"]
    by (intro run_alone_interleaves) (simp add: init mcount_booted_def)
  also have "?P(Control := []) = ?P" by auto
  also have "interleave ?ex ?b (?s, ?P) (?s, ?P(Cpu 0 := ?cp))"
    by (rule starts) (auto simp: mcount_begins_def)
  also have "?runs (?s, ?P(Cpu 0 := ?cp)) (?s', ?Q)"
    unfolding mcount_cb_prog_def append.simps
    by (rule interleaves_step [THEN interleaves_step, THEN interleaves_step, THEN interleaves_step], rule rtranclp.rtrancl_refl)
       (use m in \<open>simp_all add: mcount_share_def Let_def\<close>)
  also have "interleave ?ex ?b (?s', ?Q) (?s', ?Q(Control := mcount_fini_prog))"
    by (rule starts) (auto simp: mcount_begins_def)
  also have "?runs (?s', ?Q(Control := mcount_fini_prog)) (?off, ?Q(Control := drop 2 mcount_fini_prog))"
    unfolding mcount_fini_prog_def
    by (rule interleaves_step [THEN interleaves_step], rule rtranclp.rtrancl_refl)
       (use m in \<open>simp_all add: mcount_share_def mcount_set_cfg_def mcount_set_def\<close>)
  finally show ?thesis by (intro exI [of _ ?off]) simp
qed

theorem mcount_report_safe_witness:
  "\<exists>s. mc_mode (cfg (ms_state s)) = MCOUNT_OFF \<and> mcount_exec (\<lambda>_. True) Control Lock_Shared s = Blocked \<and>
    mcount_exec (\<lambda>_. True) (Cpu 0) (Put ''K = {'') s \<notin> {Faults Null_Deref, Faults Closed_Stream}"
proof -
  obtain s where s: "interleaves (mcount_exec (\<lambda>_. True)) (mcount_begins (\<lambda>_. True)) (mcount_booted 1, \<lambda>_. [])
      (s, (\<lambda>_. [])(Cpu 0 := drop 4 (mcount_cb_prog (snd (demo_access True 5))), Control := drop 2 mcount_fini_prog))"
    "mc_mode (cfg (ms_state s)) = MCOUNT_OFF" "mcount_exec (\<lambda>_. True) Control Lock_Shared s = Blocked"
    using demo_report_pending by blast
  have "mcount_exec (\<lambda>_. True) (Cpu 0) (Put ''K = {'') s \<notin> {Faults Null_Deref, Faults Closed_Stream}"
    by (rule mcount_report_safe [OF s(1)]) (simp add: mcount_cb_prog_def)
  with s(2,3) show ?thesis by blast
qed

end
