(* ===== verification/Spec2Isabelle.thy ===== *)
theory Spec2Isabelle
  imports System Hot_Blocks Pmem_Threads Mcount_Threads
begin

text \<open>
  A model of hypersh: plugins for a modified QEMU that a program inside the guest commands
  through a magic system call, and the guest's side of it. The paths below are under \<open>src/\<close>.

  \<^bold>\<open>The program and its parts.\<close> A guest program prints a command into a buffer and passes it to
  system call 712 (\<open>guest/hypersh.h\<close>, \<open>guest/hypersh.c\<close>). The dispatcher plugin
  (\<open>host/hypersh.cc\<close>) catches the system call, reads the string from guest memory, splits it into
  words and sends them to the plugin the first word names. Each plugin has a control function that
  parses its words with \<open>getopt\<close> and starts or stops the plugin: \<open>host/pmem.cc\<close> prints a sample
  of the memory accesses, \<open>host/mcount.cc\<close> counts accesses per processor and memory bin,
  \<open>host/slomo.cc\<close> counts instructions between interrupts, and \<open>host/trace/\<close> records a trace for
  the sniper simulator, one \<open>Sift::Writer\<close> per processor, in one of three modes.

  \<^bold>\<open>Shared material.\<close> \<open>Prelude\<close>: machine integers, the faults a run can end in, a small statement
  language (every statement a function \<open>'s \<Rightarrow> fault + 's\<close>) with its weakest preconditions, and the
  locales for runs (\<open>invariant_machine\<close>, \<open>safe_machine\<close>, \<open>measured_machine\<close>). \<open>Libc\<close>: C strings,
  \<open>snprintf\<close>, the numbers of \<open>printf\<close>, \<open>strtol\<close>. \<open>Getopt\<close>: GNU \<open>getopt\<close> with its global state,
  shared by all plugins of the process, and the lines it prints on the standard error stream. \<open>Plugin_Api\<close>: what a callback asks of QEMU
  (\<open>qemu_view\<close>), the effects of an operation, the interface of a control function.
  \<open>Interleave\<close>: threads that interleave statements, and the rule of Owicki and Gries as the
  locale \<open>proof_outline\<close>.

  \<^bold>\<open>Which theory models what.\<close>
  \<^item> \<open>Pmem\<close>, \<open>Mcount\<close>, \<open>Slomo\<close>: the state (the file's static variables) as a record, one
    definition per function, the control functions over the state of \<open>getopt\<close>.
    \<open>Pmem_Threads\<close> and \<open>Mcount_Threads\<close> run the same functions statement by statement on several
    threads; lemmas \<open>pmem_cb_alone\<close>, \<open>mcount_cb_alone\<close> and their like show that an
    uninterrupted run is the operation of the sequential theory.
  \<^item> \<open>Bbv_Count\<close>: \<open>host/trace/bbv_count.cc\<close>, the generator, the random projection, \<open>clear\<close>.
  \<^item> \<open>Trace_State\<close>: \<open>threads.h\<close>, \<open>globals.cc\<close> and the static variables of \<open>control.cc\<close>; a writer
    is the list of the calls made on it. \<open>Trace_Callbacks\<close>: the callbacks of \<open>callbacks.cc\<close>.
    \<open>Trace_Translate\<close>: \<open>vcpu_tb_trans_cb\<close>, which registers them on a block, and the execution of
    a block. \<open>Trace_Control\<close>: \<open>control.cc\<close>; what QEMU runs later (the reset callback of \<open>stop\<close>,
    the deferred mode switch and counter reset) is a queue of jobs in the state, one per request;
    QEMU may drop a reset that is requested while another is pending.
  \<^item> \<open>Trace_Threads\<close>, \<open>Trace_Blocks\<close>, \<open>Trace_Counts\<close>: what the callbacks keep on one processor,
    what a block writes, what whole executions write. \<open>Trace_Recorder\<close>, \<open>Trace_Runs\<close>: the state
    machine of commands, jobs, blocks and processor events, its invariant, the reachable states.
    \<open>Hot_Blocks\<close>: the block counters over executions and the report of \<open>stop\<close>.
  \<^item> \<open>Guest\<close>: the command functions and the shell loop; \<open>Hypersh\<close>: the dispatcher; \<open>System\<close>: the
    guest, the dispatcher and the plugins put together.

  \<^bold>\<open>What the theorems show.\<close> For the recorder: exactly which steps of a reachable state fault,
  the consistency of writers, idle flags and fifos, that blocks never fault, that the
  instruction counts in the trace add up and the counters of the detailed mode are exact, that a
  branch is reported once with its outcome, that between two counter resets 1000 detailed
  instructions never pass without a \<open>Sync\<close>, that \<open>stop\<close> undoes \<open>start\<close>; and the orders of
  commands that go wrong (a late mode switch, a reset that leaves the synchronisation target,
  counts reported twice across a mode switch). For \<open>mcount\<close>: refinement of a histogram per
  window, exactness of the counters after any run, and, on any number of threads, that a report
  never writes to a null or closed stream. For \<open>pmem\<close>: exactly which accesses are printed, what
  the flags of \<open>start\<close> select, and that \<open>stop\<close> races with a callback. For \<open>slomo\<close> and \<open>Bbv\<close>: the
  counts between interrupts and the projection. For the hot blocks: the counters after any
  executed blocks, and that the report of \<open>stop\<close> shows the hottest, whatever the order of the hash
  map. For the path from the guest: the shell executes its input line by line, a command of
  plain words reaches the plugin it names, the library's start, mode and stop run the recorder's
  functions, a created segment reaches the trace; a double and a negative policy do not.

  \<^bold>\<open>Bounds and fuel.\<close> Integers have the width of the source (\<open>u8\<close> to \<open>u64\<close>) and wrap; \<open>int\<close> is
  used for \<open>strtol\<close> before the conversion to the target's width, and saturates as \<open>long\<close> does.
  The loops recurse on their data. The shell's loop does not end and is a stream. \<open>run_alone\<close>
  has fuel, and the lemmas that use it give the number of statements of the function, so its
  result is always \<open>Some\<close>. Buffers have their sizes: 50 and 128 bytes in the guest, 127 read by
  the dispatcher.

  \<^bold>\<open>What comes from outside.\<close> These are parameters, with their documented behaviour as a named
  hypothesis where a theorem needs one: \<open>fopen\<close> and the opening of fifos (which names succeed),
  \<open>mkdtemp\<close>, the iteration order of \<open>std::unordered_map\<close> (\<open>te_iteration\<close>, a permutation),
  \<open>g_shell_parse_argv\<close> (\<open>splits_words\<close>), guest memory, the plugin registry, QEMU's answers about an
  access or a block, the RAM size.

  \<^bold>\<open>Not modelled.\<close> \<open>Sift::Writer\<close> and the simulator behind it are not in the repository: a writer
  records the calls. Code under \<open>VERBOSE\<close> (0 in the build) and commented-out code is left out; \<open>any_thread_in_detail\<close> is
  never used. The recorder's callbacks touch only their own processor's \<open>thread_data\<close> and run
  atomically here, and \<open>control_mtx\<close>, which guards nothing else, is left out; QEMU runs the reset
  and flush callbacks exclusively, as the source's comments say. The prompt of the guest shell and
  what \<open>getopt\<close> prints inside the guest are not system calls and are left out. The headers \<open>common.h\<close>, \<open>mcount.h\<close> and \<open>callbacks.h\<close> hold
  includes and declarations only.
\<close>

end
